theory Spec2Isabelle
  imports Main
begin

section \<open>Runner type registration (st2actions/bootstrap/runnersregistrar.py)\<close>

text \<open>
  The module holds a global list \<^verbatim>\<open>RUNNER_TYPES\<close> of dictionaries and one function,
  \<^verbatim>\<open>register_runner_types(experimental=False)\<close>, which walks that list, looks every
  entry up in the database by name, validates it, and adds or updates the database
  object. The embedding keeps the dictionaries as records whose optional keys are
  \<open>option\<close> fields, passes the global list and the database explicitly, and makes every
  exception a value.
\<close>

subsection \<open>Data\<close>

text \<open>The Python values that occur as parameter defaults: strings, integers, booleans
  and dictionaries.\<close>

datatype pvalue = VStr string | VInt int | VBool bool | VDict "(string \<times> pvalue) list"

text \<open>The four constants imported from \<^verbatim>\<open>st2common.constants.runners\<close>; their values
  are not part of this module, so the catalog takes them as a parameter.\<close>

record constants =
  LOCAL_RUNNER_DEFAULT_ACTION_TIMEOUT :: pvalue
  FABRIC_RUNNER_DEFAULT_ACTION_TIMEOUT :: pvalue
  FABRIC_RUNNER_DEFAULT_REMOTE_DIR :: pvalue
  PYTHON_RUNNER_DEFAULT_ACTION_TIMEOUT :: pvalue

text \<open>One entry of \<^verbatim>\<open>runner_parameters\<close>. The keys \<^verbatim>\<open>description\<close> and \<^verbatim>\<open>type\<close>
  occur in every entry of the catalog; \<^verbatim>\<open>default\<close>, \<^verbatim>\<open>required\<close> and
  \<^verbatim>\<open>immutable\<close> may be absent (\<open>None\<close>).\<close>

record parameter_spec =
  p_description :: string
  p_type :: string
  p_default :: "pvalue option"
  p_required :: "bool option"
  p_immutable :: "bool option"

text \<open>One dictionary of \<^verbatim>\<open>RUNNER_TYPES\<close>. The keys \<^verbatim>\<open>experimental\<close> and
  \<^verbatim>\<open>query_module\<close> may be absent; \<^verbatim>\<open>runner_parameters\<close> is a dictionary literal,
  kept as an association list in source order.\<close>

record runnertype =
  name :: string
  description :: string
  enabled :: bool
  experimental :: "bool option"
  runner_parameters :: "(string \<times> parameter_spec) list"
  runner_module :: string
  query_module :: "string option"

subsection \<open>The catalog \<^verbatim>\<open>RUNNER_TYPES\<close> (lines 34 to 440)\<close>

definition run_local :: "constants \<Rightarrow> runnertype" where
  \<open>run_local c =
    \<lparr>name = ''run-local'',
     description = ''A runner to execute local actions as a fixed user.'',
     enabled = True,
     experimental = None,
     runner_parameters =
      [(''cmd'',
        \<lparr>p_description = ''Arbitrary Linux command to be executed on the host.'',
         p_type = ''string'', p_default = None, p_required = None, p_immutable = None\<rparr>),
       (''cwd'',
        \<lparr>p_description = ''Working directory where the command will be executed in'',
         p_type = ''string'', p_default = None, p_required = None, p_immutable = None\<rparr>),
       (''env'',
        \<lparr>p_description = ''Environment variables which will be available to the command(e.g. key1=val1,key2=val2)'',
         p_type = ''object'', p_default = None, p_required = None, p_immutable = None\<rparr>),
       (''sudo'',
        \<lparr>p_description = ''The command will be executed with sudo.'',
         p_type = ''boolean'', p_default = Some (VBool False), p_required = None, p_immutable = None\<rparr>),
       (''kwarg_op'',
        \<lparr>p_description = ''Operator to use in front of keyword args i.e. "--" or "-".'',
         p_type = ''string'', p_default = Some (VStr ''--''), p_required = None, p_immutable = None\<rparr>),
       (''timeout'',
        \<lparr>p_description = ''Action timeout in seconds. Action will get killed if it doesn't finish in timeout seconds.'',
         p_type = ''integer'', p_default = Some (LOCAL_RUNNER_DEFAULT_ACTION_TIMEOUT c), p_required = None, p_immutable = None\<rparr>)],
     runner_module = ''st2actions.runners.localrunner'',
     query_module = None\<rparr>\<close>

definition run_local_script :: "constants \<Rightarrow> runnertype" where
  \<open>run_local_script c =
    \<lparr>name = ''run-local-script'',
     description = ''A runner to execute local actions as a fixed user.'',
     enabled = True,
     experimental = None,
     runner_parameters =
      [(''cwd'',
        \<lparr>p_description = ''Working directory where the script will be executed in'',
         p_type = ''string'', p_default = None, p_required = None, p_immutable = None\<rparr>),
       (''env'',
        \<lparr>p_description = ''Environment variables which will be available to the script(e.g. key1=val1,key2=val2)'',
         p_type = ''object'', p_default = None, p_required = None, p_immutable = None\<rparr>),
       (''sudo'',
        \<lparr>p_description = ''The command will be executed with sudo.'',
         p_type = ''boolean'', p_default = Some (VBool False), p_required = None, p_immutable = None\<rparr>),
       (''kwarg_op'',
        \<lparr>p_description = ''Operator to use in front of keyword args i.e. "--" or "-".'',
         p_type = ''string'', p_default = Some (VStr ''--''), p_required = None, p_immutable = None\<rparr>),
       (''timeout'',
        \<lparr>p_description = ''Action timeout in seconds. Action will get killed if it doesn't finish in timeout seconds.'',
         p_type = ''integer'', p_default = Some (LOCAL_RUNNER_DEFAULT_ACTION_TIMEOUT c), p_required = None, p_immutable = None\<rparr>)],
     runner_module = ''st2actions.runners.localrunner'',
     query_module = None\<rparr>\<close>

definition run_remote :: "constants \<Rightarrow> runnertype" where
  \<open>run_remote c =
    \<lparr>name = ''run-remote'',
     description = ''A remote execution runner that executes actions as a fixed system user.'',
     enabled = True,
     experimental = None,
     runner_parameters =
      [(''hosts'',
        \<lparr>p_description = ''A comma delimited string of a list of hosts where the remote command will be executed.'',
         p_type = ''string'', p_default = None, p_required = Some True, p_immutable = None\<rparr>),
       (''username'',
        \<lparr>p_description = ''Username used to log-in. If not provided, default username from config is used.'',
         p_type = ''string'', p_default = None, p_required = Some False, p_immutable = None\<rparr>),
       (''password'',
        \<lparr>p_description = ''Password used to log in. If not provided, private key from the config file is used.'',
         p_type = ''string'', p_default = None, p_required = Some False, p_immutable = None\<rparr>),
       (''private_key'',
        \<lparr>p_description = ''Private key used to log in. If not provided, private key from the config file is used.'',
         p_type = ''string'', p_default = None, p_required = Some False, p_immutable = None\<rparr>),
       (''cmd'',
        \<lparr>p_description = ''Arbitrary Linux command to be executed on the remote host(s).'',
         p_type = ''string'', p_default = None, p_required = None, p_immutable = None\<rparr>),
       (''cwd'',
        \<lparr>p_description = ''Working directory where the script will be executed in'',
         p_type = ''string'', p_default = None, p_required = None, p_immutable = None\<rparr>),
       (''env'',
        \<lparr>p_description = ''Environment variables which will be available to the command(e.g. key1=val1,key2=val2)'',
         p_type = ''object'', p_default = None, p_required = None, p_immutable = None\<rparr>),
       (''parallel'',
        \<lparr>p_description = ''Default to parallel execution.'',
         p_type = ''boolean'', p_default = Some (VBool True), p_required = None, p_immutable = Some True\<rparr>),
       (''sudo'',
        \<lparr>p_description = ''The remote command will be executed with sudo.'',
         p_type = ''boolean'', p_default = Some (VBool False), p_required = None, p_immutable = None\<rparr>),
       (''dir'',
        \<lparr>p_description = ''The working directory where the script will be copied to on the remote host.'',
         p_type = ''string'', p_default = Some (FABRIC_RUNNER_DEFAULT_REMOTE_DIR c), p_required = None, p_immutable = Some True\<rparr>),
       (''kwarg_op'',
        \<lparr>p_description = ''Operator to use in front of keyword args i.e. "--" or "-".'',
         p_type = ''string'', p_default = Some (VStr ''--''), p_required = None, p_immutable = None\<rparr>),
       (''timeout'',
        \<lparr>p_description = ''Action timeout in seconds. Action will get killed if it doesn't finish in timeout seconds.'',
         p_type = ''integer'', p_default = Some (FABRIC_RUNNER_DEFAULT_ACTION_TIMEOUT c), p_required = None, p_immutable = None\<rparr>)],
     runner_module = ''st2actions.runners.fabricrunner'',
     query_module = None\<rparr>\<close>

definition run_remote_script :: "constants \<Rightarrow> runnertype" where
  \<open>run_remote_script c =
    \<lparr>name = ''run-remote-script'',
     description = ''A remote execution runner that executes actions as a fixed system user.'',
     enabled = True,
     experimental = None,
     runner_parameters =
      [(''hosts'',
        \<lparr>p_description = ''A comma delimited string of a list of hosts where the remote command will be executed.'',
         p_type = ''string'', p_default = None, p_required = Some True, p_immutable = None\<rparr>),
       (''username'',
        \<lparr>p_description = ''Username used to log-in. If not provided, default username from config is used.'',
         p_type = ''string'', p_default = None, p_required = Some False, p_immutable = None\<rparr>),
       (''password'',
        \<lparr>p_description = ''Password used to log in. If not provided, private key from the config file is used.'',
         p_type = ''string'', p_default = None, p_required = Some False, p_immutable = None\<rparr>),
       (''private_key'',
        \<lparr>p_description = ''Private key used to log in. If not provided, private key from the config file is used.'',
         p_type = ''string'', p_default = None, p_required = Some False, p_immutable = None\<rparr>),
       (''parallel'',
        \<lparr>p_description = ''Default to parallel execution.'',
         p_type = ''boolean'', p_default = Some (VBool True), p_required = None, p_immutable = Some True\<rparr>),
       (''cwd'',
        \<lparr>p_description = ''Working directory where the script will be executed in.'',
         p_type = ''string'', p_default = Some (FABRIC_RUNNER_DEFAULT_REMOTE_DIR c), p_required = None, p_immutable = None\<rparr>),
       (''env'',
        \<lparr>p_description = ''Environment variables which will be available to the script(e.g. key1=val1,key2=val2)'',
         p_type = ''object'', p_default = None, p_required = None, p_immutable = None\<rparr>),
       (''sudo'',
        \<lparr>p_description = ''The remote command will be executed with sudo.'',
         p_type = ''boolean'', p_default = Some (VBool False), p_required = None, p_immutable = None\<rparr>),
       (''dir'',
        \<lparr>p_description = ''The working directory where the script will be copied to on the remote host.'',
         p_type = ''string'', p_default = Some (FABRIC_RUNNER_DEFAULT_REMOTE_DIR c), p_required = None, p_immutable = None\<rparr>),
       (''kwarg_op'',
        \<lparr>p_description = ''Operator to use in front of keyword args i.e. "--" or "-".'',
         p_type = ''string'', p_default = Some (VStr ''--''), p_required = None, p_immutable = None\<rparr>),
       (''timeout'',
        \<lparr>p_description = ''Action timeout in seconds. Action will get killed if it doesn't finish in timeout seconds.'',
         p_type = ''integer'', p_default = Some (FABRIC_RUNNER_DEFAULT_ACTION_TIMEOUT c), p_required = None, p_immutable = None\<rparr>)],
     runner_module = ''st2actions.runners.fabricrunner'',
     query_module = None\<rparr>\<close>

definition http_runner :: "constants \<Rightarrow> runnertype" where
  \<open>http_runner c =
    \<lparr>name = ''http-runner'',
     description = ''A HTTP client for running HTTP actions.'',
     enabled = True,
     experimental = None,
     runner_parameters =
      [(''url'',
        \<lparr>p_description = ''URL to the HTTP endpoint.'',
         p_type = ''string'', p_default = None, p_required = Some True, p_immutable = None\<rparr>),
       (''headers'',
        \<lparr>p_description = ''HTTP headers for the request.'',
         p_type = ''string'', p_default = None, p_required = None, p_immutable = None\<rparr>),
       (''cookies'',
        \<lparr>p_description = ''Optional cookies to send with the request.'',
         p_type = ''object'', p_default = None, p_required = None, p_immutable = None\<rparr>),
       (''http_proxy'',
        \<lparr>p_description = ''A URL of a HTTP proxy to use (e.g. http://10.10.1.10:3128).'',
         p_type = ''string'', p_default = None, p_required = None, p_immutable = None\<rparr>),
       (''https_proxy'',
        \<lparr>p_description = ''A URL of a HTTPs proxy to use (e.g. http://10.10.1.10:3128).'',
         p_type = ''string'', p_default = None, p_required = None, p_immutable = None\<rparr>),
       (''allow_redirects'',
        \<lparr>p_description = ''Set to True if POST/PUT/DELETE redirect following is allowed.'',
         p_type = ''boolean'', p_default = Some (VBool False), p_required = None, p_immutable = None\<rparr>)],
     runner_module = ''st2actions.runners.httprunner'',
     query_module = None\<rparr>\<close>

definition mistral_v1 :: "constants \<Rightarrow> runnertype" where
  \<open>mistral_v1 c =
    \<lparr>name = ''mistral-v1'',
     description = ''A runner for executing mistral v1 workflow.'',
     enabled = True,
     experimental = None,
     runner_parameters =
      [(''workbook'',
        \<lparr>p_description = ''The name of the workbook.'',
         p_type = ''string'', p_default = None, p_required = Some True, p_immutable = None\<rparr>),
       (''task'',
        \<lparr>p_description = ''The startup task in the workbook to execute.'',
         p_type = ''string'', p_default = None, p_required = Some True, p_immutable = None\<rparr>),
       (''context'',
        \<lparr>p_description = ''Context for the startup task.'',
         p_type = ''object'', p_default = Some (VDict []), p_required = None, p_immutable = None\<rparr>)],
     runner_module = ''st2actions.runners.mistral.v1'',
     query_module = None\<rparr>\<close>

definition mistral_v2 :: "constants \<Rightarrow> runnertype" where
  \<open>mistral_v2 c =
    \<lparr>name = ''mistral-v2'',
     description = ''A runner for executing mistral v2 workflow.'',
     enabled = True,
     experimental = None,
     runner_parameters =
      [(''workflow'',
        \<lparr>p_description = ''The name of the workflow to run if the entry_point is a workbook of many workflows. The name should be in the format "<pack_name>.<action_name>.<workflow_name>". If entry point is a workflow or a workbook with a single workflow, the runner will identify the workflow automatically.'',
         p_type = ''string'', p_default = None, p_required = None, p_immutable = None\<rparr>),
       (''task'',
        \<lparr>p_description = ''The name of the task to run for reverse workflow.'',
         p_type = ''string'', p_default = None, p_required = None, p_immutable = None\<rparr>),
       (''context'',
        \<lparr>p_description = ''Additional workflow inputs.'',
         p_type = ''object'', p_default = Some (VDict []), p_required = None, p_immutable = None\<rparr>)],
     runner_module = ''st2actions.runners.mistral.v2'',
     query_module = Some ''st2actions.query.mistral.v2''\<rparr>\<close>

definition action_chain :: "constants \<Rightarrow> runnertype" where
  \<open>action_chain c =
    \<lparr>name = ''action-chain'',
     description = ''A runner for launching linear action chains.'',
     enabled = True,
     experimental = None,
     runner_parameters =
      [],
     runner_module = ''st2actions.runners.actionchainrunner'',
     query_module = None\<rparr>\<close>

definition run_python :: "constants \<Rightarrow> runnertype" where
  \<open>run_python c =
    \<lparr>name = ''run-python'',
     description = ''A runner for launching python actions.'',
     enabled = True,
     experimental = None,
     runner_parameters =
      [(''env'',
        \<lparr>p_description = ''Environment variables which will be available to the script(e.g. key1=val1,key2=val2)'',
         p_type = ''object'', p_default = None, p_required = None, p_immutable = None\<rparr>),
       (''timeout'',
        \<lparr>p_description = ''Action timeout in seconds. Action will get killed if it doesn't finish in timeout seconds.'',
         p_type = ''integer'', p_default = Some (PYTHON_RUNNER_DEFAULT_ACTION_TIMEOUT c), p_required = None, p_immutable = None\<rparr>)],
     runner_module = ''st2actions.runners.pythonrunner'',
     query_module = None\<rparr>\<close>

definition run_windows_cmd :: "constants \<Rightarrow> runnertype" where
  \<open>run_windows_cmd c =
    \<lparr>name = ''run-windows-cmd'',
     description = ''A remote execution runner that executes commandson Windows hosts.'',
     enabled = True,
     experimental = Some True,
     runner_parameters =
      [(''host'',
        \<lparr>p_description = ''Host to execute the command on'',
         p_type = ''string'', p_default = None, p_required = Some True, p_immutable = None\<rparr>),
       (''username'',
        \<lparr>p_description = ''Username used to log-in.'',
         p_type = ''string'', p_default = Some (VStr ''Administrator''), p_required = Some True, p_immutable = None\<rparr>),
       (''password'',
        \<lparr>p_description = ''Password used to log in.'',
         p_type = ''string'', p_default = None, p_required = Some True, p_immutable = None\<rparr>),
       (''cmd'',
        \<lparr>p_description = ''Arbitrary command to be executed on the remote host.'',
         p_type = ''string'', p_default = None, p_required = None, p_immutable = None\<rparr>),
       (''timeout'',
        \<lparr>p_description = ''Action timeout in seconds. Action will get killed if it doesn't finish in timeout seconds.'',
         p_type = ''integer'', p_default = Some (FABRIC_RUNNER_DEFAULT_ACTION_TIMEOUT c), p_required = None, p_immutable = None\<rparr>)],
     runner_module = ''st2actions.runners.windows_command_runner'',
     query_module = None\<rparr>\<close>

definition run_windows_script :: "constants \<Rightarrow> runnertype" where
  \<open>run_windows_script c =
    \<lparr>name = ''run-windows-script'',
     description = ''A remote execution runner that executes power shell scriptson Windows hosts.'',
     enabled = True,
     experimental = Some True,
     runner_parameters =
      [(''host'',
        \<lparr>p_description = ''Host to execute the command on'',
         p_type = ''string'', p_default = None, p_required = Some True, p_immutable = None\<rparr>),
       (''username'',
        \<lparr>p_description = ''Username used to log-in.'',
         p_type = ''string'', p_default = Some (VStr ''Administrator''), p_required = Some True, p_immutable = None\<rparr>),
       (''password'',
        \<lparr>p_description = ''Password used to log in.'',
         p_type = ''string'', p_default = None, p_required = Some True, p_immutable = None\<rparr>),
       (''share'',
        \<lparr>p_description = ''Name of the Windows share where script files are uploaded'',
         p_type = ''string'', p_default = Some (VStr ''C$''), p_required = Some True, p_immutable = None\<rparr>),
       (''timeout'',
        \<lparr>p_description = ''Action timeout in seconds. Action will get killed if it doesn't finish in timeout seconds.'',
         p_type = ''integer'', p_default = Some (FABRIC_RUNNER_DEFAULT_ACTION_TIMEOUT c), p_required = None, p_immutable = None\<rparr>)],
     runner_module = ''st2actions.runners.windows_script_runner'',
     query_module = None\<rparr>\<close>

definition RUNNER_TYPES :: "constants \<Rightarrow> runnertype list" where
  "RUNNER_TYPES c =
    [run_local c,
     run_local_script c,
     run_remote c,
     run_remote_script c,
     http_runner c,
     mistral_v1 c,
     mistral_v2 c,
     action_chain c,
     run_python c,
     run_windows_cmd c,
     run_windows_script c]"

subsection \<open>Collaborators\<close>

text \<open>
  Exceptions. \<^verbatim>\<open>StackStormDBObjectNotFoundError\<close> is the one class the source names;
  \<open>ValidationError\<close>, \<open>StoreError\<close> and \<open>OtherException\<close> stand for the other
  subclasses of Python's \<^verbatim>\<open>Exception\<close>, and \<open>NonException\<close> for what derives from
  \<^verbatim>\<open>BaseException\<close> only (\<^verbatim>\<open>KeyboardInterrupt\<close>, \<^verbatim>\<open>SystemExit\<close>), which
  \<^verbatim>\<open>except Exception\<close> does not catch.
\<close>

datatype exn =
  StackStormDBObjectNotFoundError
| ValidationError string
| StoreError string
| OtherException string
| NonException string

fun is_Exception :: "exn \<Rightarrow> bool" where
  "is_Exception (NonException _) = False"
| "is_Exception _ = True"

text \<open>
  Modelled from the spec: the class \<^verbatim>\<open>RunnerTypeDB\<close> of st2common, which is not in this
  module. The persisted record has all of the definition's fields plus an identity
  assigned by the store; the identity is absent until the object has been saved.
\<close>

record RunnerTypeDB =
  record_id :: "nat option"
  record_fields :: runnertype

text \<open>
  Modelled from the spec: \<^verbatim>\<open>RunnerTypeAPI(**runnertype)\<close> and \<^verbatim>\<open>RunnerTypeAPI.to_model\<close>
  of st2common, which are not in this module. The API object is built from the keyword
  arguments it is given, and the record is constructed from the definition, with no
  identity yet.
\<close>

definition RunnerTypeAPI :: "runnertype \<Rightarrow> runnertype" where
  "RunnerTypeAPI kw = kw"

definition to_model :: "runnertype \<Rightarrow> RunnerTypeDB" where
  "to_model runnertype_api = \<lparr>record_id = None, record_fields = runnertype_api\<rparr>"

text \<open>
  The three calls that leave the module and may raise are parameters of the embedding,
  over any type \<open>'db\<close> of database states:
  \<^item> \<^verbatim>\<open>get_runnertype_by_name(runner_name)\<close> reads the database and returns the object
    or raises;
  \<^item> \<^verbatim>\<open>runnertype_api.validate()\<close> returns or raises;
  \<^item> \<^verbatim>\<open>RunnerType.add_or_update(runner_type_model)\<close> returns the saved object or
    raises, and leaves a new database state either way.
\<close>

record 'db env =
  get_runnertype_by_name :: "'db \<Rightarrow> string \<Rightarrow> exn + RunnerTypeDB"
  validate :: "runnertype \<Rightarrow> exn option"
  add_or_update :: "'db \<Rightarrow> RunnerTypeDB \<Rightarrow> (exn + RunnerTypeDB) \<times> 'db"

subsection \<open>\<^verbatim>\<open>register_runner_types\<close> (lines 443 to 485)\<close>

text \<open>
  What the function logs for one entry: \<open>Skipped\<close> is the debug record
  \<^verbatim>\<open>Skipping experimental runner\<close>, \<open>Updated\<close> and \<open>Created\<close> are the two audit
  records with the object the database returned, \<open>Failed\<close> is
  \<^verbatim>\<open>LOG.exception('Unable to register runner type %s.', runnertype['name'])\<close>.
  The function returns nothing; these records are its per-entry outcomes. The debug
  record at the start of a call carries no data and is left out, and logging itself
  is taken not to raise.
\<close>

datatype outcome =
  Skipped string
| Updated RunnerTypeDB
| Created RunnerTypeDB
| Failed string

text \<open>
  The loop body up to the second \<^verbatim>\<open>try\<close> (lines 448 to 473): the filter, the deletion
  of the \<^verbatim>\<open>experimental\<close> key from the catalog entry itself, the lookup, the
  validation and the construction of the model. It yields the entry as the body leaves
  it in the catalog, and either \<open>Skip\<close> (the \<^verbatim>\<open>continue\<close>), \<open>Raise e\<close> (an exception
  no handler of the body catches) or \<open>Upsert m update\<close>: the model handed to
  \<^verbatim>\<open>add_or_update\<close> and the flag \<^verbatim>\<open>update\<close>.

  \<^verbatim>\<open>if runnertype_db:\<close> tests the looked-up object, which is \<^verbatim>\<open>None\<close> exactly
  when the lookup raised \<^verbatim>\<open>StackStormDBObjectNotFoundError\<close>.
\<close>

datatype prepared = Skip | Raise exn | Upsert RunnerTypeDB bool

text \<open>\<^verbatim>\<open>runnertype.get('experimental', False)\<close>, and the entry after
  \<^verbatim>\<open>if 'experimental' in runnertype: del runnertype['experimental']\<close>.\<close>

definition runner_experimental :: "runnertype \<Rightarrow> bool" where
  "runner_experimental runnertype =
     (case experimental runnertype of Some b \<Rightarrow> b | None \<Rightarrow> False)"

definition del_experimental :: "runnertype \<Rightarrow> runnertype" where
  "del_experimental runnertype = runnertype\<lparr>experimental := None\<rparr>"

definition prepare :: "'db env \<Rightarrow> bool \<Rightarrow> runnertype \<Rightarrow> 'db \<Rightarrow> runnertype \<times> prepared" where
  "prepare env exp runnertype db =
    (let runner_name = name runnertype
     in if runner_experimental runnertype \<and> \<not> exp then (runnertype, Skip)
        else
          let runnertype = del_experimental runnertype;
              looked_up =
                (case get_runnertype_by_name env db runner_name of
                   Inr found \<Rightarrow> Inr (Some found, True)
                 | Inl e \<Rightarrow>
                     if e = StackStormDBObjectNotFoundError then Inr (None, False)
                     else Inl e)
          in (runnertype,
              case looked_up of
                Inl e \<Rightarrow> Raise e
              | Inr (runnertype_db, update) \<Rightarrow>
                  let runnertype_api = RunnerTypeAPI runnertype
                  in (case validate env runnertype_api of
                        Some e \<Rightarrow> Raise e
                      | None \<Rightarrow>
                          let runner_type_model = to_model runnertype_api;
                              runner_type_model =
                                (case runnertype_db of
                                   Some found \<Rightarrow> runner_type_model\<lparr>record_id := record_id found\<rparr>
                                 | None \<Rightarrow> runner_type_model)
                          in Upsert runner_type_model update)))"

text \<open>
  The whole loop body: after \<open>prepare\<close>, the second \<^verbatim>\<open>try\<close> (lines 475 to 484). An
  exception of \<^verbatim>\<open>add_or_update\<close> that derives from \<^verbatim>\<open>Exception\<close> is logged and the
  loop goes on; any other leaves the function. The result is the catalog entry, the
  database, and the exception that escapes or the outcome logged.
\<close>

definition register_one ::
  "'db env \<Rightarrow> bool \<Rightarrow> runnertype \<Rightarrow> 'db \<Rightarrow> runnertype \<times> 'db \<times> (exn + outcome)" where
  "register_one env exp runnertype db =
    (case prepare env exp runnertype db of
       (runnertype, Skip) \<Rightarrow> (runnertype, db, Inr (Skipped (name runnertype)))
     | (runnertype, Raise e) \<Rightarrow> (runnertype, db, Inl e)
     | (runnertype, Upsert runner_type_model update) \<Rightarrow>
         (case add_or_update env db runner_type_model of
            (Inr runnertype_db, db') \<Rightarrow>
              (runnertype, db', Inr (if update then Updated runnertype_db else Created runnertype_db))
          | (Inl e, db') \<Rightarrow>
              if is_Exception e then (runnertype, db', Inr (Failed (name runnertype)))
              else (runnertype, db', Inl e)))"

text \<open>
  A call of the function: the catalog as the call leaves it, the database, the outcomes
  logged in order, and the exception that left the function, if one did.
\<close>

record 'db run =
  catalog_after :: "runnertype list"
  db_after :: 'db
  logged :: "outcome list"
  raised :: "exn option"

text \<open>The \<^verbatim>\<open>for\<close> loop over the global list. An exception that escapes the body ends the
  loop: the entries after it are neither changed nor looked at.\<close>

fun register_loop :: "'db env \<Rightarrow> bool \<Rightarrow> runnertype list \<Rightarrow> 'db \<Rightarrow> 'db run" where
  "register_loop env exp [] db =
     \<lparr>catalog_after = [], db_after = db, logged = [], raised = None\<rparr>"
| "register_loop env exp (runnertype # rest) db =
     (case register_one env exp runnertype db of
        (runnertype', db', Inl e) \<Rightarrow>
          \<lparr>catalog_after = runnertype' # rest, db_after = db', logged = [], raised = Some e\<rparr>
      | (runnertype', db', Inr out) \<Rightarrow>
          (let r = register_loop env exp rest db'
           in r\<lparr>catalog_after := runnertype' # catalog_after r, logged := out # logged r\<rparr>))"

text \<open>The function itself, with the global \<^verbatim>\<open>RUNNER_TYPES\<close> and the database as
  arguments.\<close>

definition register_runner_types ::
  "'db env \<Rightarrow> bool \<Rightarrow> runnertype list \<Rightarrow> 'db \<Rightarrow> 'db run" where
  "register_runner_types env exp runner_types db = register_loop env exp runner_types db"

subsection \<open>A store and a validator\<close>

text \<open>
  Modelled from the spec: the Store capability (section 6), which st2common implements
  and this module only calls. It holds records, several of which may bear the same
  name; the identity of a record is its position, assigned when the record is created
  and never changed, since nothing is ever deleted. \<open>find_by_name\<close> returns the first
  record of that name or fails with the not-found error; \<open>upsert\<close> creates when the
  record carries no identity and updates in place when it does, failing with a store
  error when no record has that identity.
\<close>

type_synonym store = "runnertype list"

fun first_named :: "string \<Rightarrow> store \<Rightarrow> nat option" where
  "first_named n [] = None"
| "first_named n (r # rs) =
     (if name r = n then Some 0 else map_option Suc (first_named n rs))"

definition find_by_name :: "store \<Rightarrow> string \<Rightarrow> exn + RunnerTypeDB" where
  "find_by_name s n =
     (case first_named n s of
        None \<Rightarrow> Inl StackStormDBObjectNotFoundError
      | Some i \<Rightarrow> Inr \<lparr>record_id = Some i, record_fields = s ! i\<rparr>)"

definition upsert :: "store \<Rightarrow> RunnerTypeDB \<Rightarrow> (exn + RunnerTypeDB) \<times> store" where
  "upsert s m =
     (case record_id m of
        None \<Rightarrow> (Inr (m\<lparr>record_id := Some (length s)\<rparr>), s @ [record_fields m])
      | Some i \<Rightarrow>
          if i < length s then (Inr m, s[i := record_fields m])
          else (Inl (StoreError ''no record with this id''), s))"

text \<open>
  Modelled from the spec: the validation of a definition (section 4.2, step c, and the
  invariant of section 3), which \<^verbatim>\<open>RunnerTypeAPI.validate\<close> of st2common performs. The
  record type already has every field; what is left to check is that
  \<^verbatim>\<open>runner_module\<close> is not empty and that no parameter has both \<^verbatim>\<open>required\<close> true
  and a default.
\<close>

definition required_with_default :: "parameter_spec \<Rightarrow> bool" where
  "required_with_default p \<longleftrightarrow> p_required p = Some True \<and> p_default p \<noteq> None"

definition has_required_with_default :: "runnertype \<Rightarrow> bool" where
  "has_required_with_default d =
     list_ex (\<lambda>kv. required_with_default (snd kv)) (runner_parameters d)"

definition validate_spec :: "runnertype \<Rightarrow> exn option" where
  "validate_spec d =
     (if runner_module d = [] then Some (ValidationError ''runner_module is empty'')
      else if has_required_with_default d
      then Some (ValidationError ''required parameter with a default'')
      else None)"

text \<open>
  The collaborators over that store. \<open>lookup_fault\<close> and \<open>persist_fault\<close> name, per
  runner name, the exception with which the lookup or the save fails, if it does; a
  store without faults has \<open>no_fault\<close> for both.
\<close>

definition no_fault :: "string \<Rightarrow> exn option" where
  "no_fault n = None"

definition store_env ::
  "(runnertype \<Rightarrow> exn option) \<Rightarrow> (string \<Rightarrow> exn option) \<Rightarrow> (string \<Rightarrow> exn option) \<Rightarrow> store env" where
  "store_env v lookup_fault persist_fault =
     \<lparr>get_runnertype_by_name =
        (\<lambda>s n. case lookup_fault n of Some e \<Rightarrow> Inl e | None \<Rightarrow> find_by_name s n),
      validate = v,
      add_or_update =
        (\<lambda>s m. case persist_fault (name (record_fields m)) of
                  Some e \<Rightarrow> (Inl e, s)
                | None \<Rightarrow> upsert s m)\<rparr>"


subsection \<open>What a call leaves in the catalog\<close>

text \<open>The entry as the loop body leaves it in \<^verbatim>\<open>RUNNER_TYPES\<close>: untouched when it is
  skipped, without its \<^verbatim>\<open>experimental\<close> key otherwise.\<close>

definition left_in_catalog :: "bool \<Rightarrow> runnertype \<Rightarrow> runnertype" where
  "left_in_catalog exp d =
     (if runner_experimental d \<and> \<not> exp then d else del_experimental d)"

text \<open>Whether an outcome records a creation, and the name of the record an outcome says
  was saved.\<close>

fun created :: "outcome \<Rightarrow> bool" where
  "created (Created r) = True"
| "created _ = False"

fun saved_name :: "outcome \<Rightarrow> string option" where
  "saved_name (Created r) = Some (name (record_fields r))"
| "saved_name (Updated r) = Some (name (record_fields r))"
| "saved_name _ = None"

subsection \<open>Two calls in a row\<close>

text \<open>The second of two calls of \<^verbatim>\<open>register_runner_types\<close> with the same flag: it runs on
  the catalog and the database the first call left.\<close>

definition register_again :: "'db env \<Rightarrow> bool \<Rightarrow> runnertype list \<Rightarrow> 'db \<Rightarrow> 'db run" where
  "register_again env exp C db =
     (let r = register_runner_types env exp C db
      in register_runner_types env exp (catalog_after r) (db_after r))"

text \<open>The second of two calls whose flags may differ.\<close>

definition register_then ::
  "'db env \<Rightarrow> bool \<Rightarrow> bool \<Rightarrow> runnertype list \<Rightarrow> 'db \<Rightarrow> 'db run" where
  "register_then env exp1 exp2 C db =
     (let r = register_runner_types env exp1 C db
      in register_runner_types env exp2 (catalog_after r) (db_after r))"

text \<open>What a successful registration of one record does to the store, and the records a
  call registers: the definitions in scope, without their \<^verbatim>\<open>experimental\<close> key.\<close>

definition store_write :: "store \<Rightarrow> runnertype \<Rightarrow> store" where
  "store_write s f =
     (case first_named (name f) s of Some i \<Rightarrow> s[i := f] | None \<Rightarrow> s @ [f])"

definition in_scope :: "bool \<Rightarrow> runnertype list \<Rightarrow> runnertype list" where
  "in_scope exp C =
     map del_experimental (filter (\<lambda>d. \<not> (runner_experimental d \<and> \<not> exp)) C)"

subsection \<open>Example inputs\<close>

text \<open>Concrete runner definitions, catalogs and collaborators on which the theorems
  below are evaluated.\<close>

definition example_constants :: constants where
  "example_constants =
     \<lparr>LOCAL_RUNNER_DEFAULT_ACTION_TIMEOUT = VInt 60,
      FABRIC_RUNNER_DEFAULT_ACTION_TIMEOUT = VInt 60,
      FABRIC_RUNNER_DEFAULT_REMOTE_DIR = VStr ''/tmp'',
      PYTHON_RUNNER_DEFAULT_ACTION_TIMEOUT = VInt 600\<rparr>"

definition accept_all :: "runnertype \<Rightarrow> exn option" where
  "accept_all d = None"

definition fault_on :: "string \<Rightarrow> exn \<Rightarrow> string \<Rightarrow> exn option" where
  "fault_on bad e n = (if n = bad then Some e else None)"

definition example_runner :: "string \<Rightarrow> runnertype" where
  "example_runner n =
     \<lparr>name = n, description = ''An example runner.'', enabled = True, experimental = None,
      runner_parameters = [], runner_module = ''example.module'', query_module = None\<rparr>"

definition invalid_runner :: "string \<Rightarrow> runnertype" where
  "invalid_runner n = (example_runner n)\<lparr>runner_module := []\<rparr>"

definition experimental_runner :: "string \<Rightarrow> runnertype" where
  "experimental_runner n = (example_runner n)\<lparr>experimental := Some True\<rparr>"

definition invalid_experimental_runner :: "string \<Rightarrow> runnertype" where
  "invalid_experimental_runner n = (invalid_runner n)\<lparr>experimental := Some True\<rparr>"

definition catalog_a_e :: "runnertype list" where
  "catalog_a_e = [example_runner ''a'', experimental_runner ''e'']"

definition catalog_abc :: "runnertype list" where
  "catalog_abc = [example_runner ''a'', example_runner ''b'', example_runner ''c'']"

definition catalog_a_invalid_c :: "runnertype list" where
  "catalog_a_invalid_c = [example_runner ''a'', invalid_runner ''b'', example_runner ''c'']"

definition store_x_a :: store where
  "store_x_a = [example_runner ''x'', invalid_runner ''a'']"

definition env_plain :: "store env" where
  "env_plain = store_env validate_spec no_fault no_fault"

definition env_accepting :: "store env" where
  "env_accepting = store_env accept_all no_fault no_fault"

definition env_b_unsaved :: "store env" where
  "env_b_unsaved = store_env validate_spec no_fault (fault_on ''b'' (StoreError ''unavailable''))"

definition env_e_unsaved :: "store env" where
  "env_e_unsaved = store_env validate_spec no_fault (fault_on ''e'' (StoreError ''unavailable''))"

definition env_a_unreadable :: "store env" where
  "env_a_unreadable =
     store_env validate_spec (fault_on ''a'' (OtherException ''connection refused'')) no_fault"

definition env_b_unreadable :: "store env" where
  "env_b_unreadable =
     store_env validate_spec (fault_on ''b'' (OtherException ''connection refused'')) no_fault"


section \<open>Properties\<close>

subsection \<open>The loop body\<close>

lemma name_del_experimental [simp]: "name (del_experimental d) = name d"
  by (simp add: del_experimental_def)

lemma del_experimental_idem [simp]: "del_experimental (del_experimental d) = del_experimental d"
  by (simp add: del_experimental_def)

lemma experimental_del_experimental [simp]: "experimental (del_experimental d) = None"
  by (simp add: del_experimental_def)

lemma runner_experimental_del [simp]: "\<not> runner_experimental (del_experimental d)"
  by (simp add: runner_experimental_def)

lemma prepare_skipped:
  "runner_experimental d \<and> \<not> exp \<Longrightarrow> prepare env exp d db = (d, Skip)"
  by (simp add: prepare_def)

lemma fst_prepare:
  "fst (prepare env exp d db) =
     (if runner_experimental d \<and> \<not> exp then d else del_experimental d)"
  by (simp add: prepare_def Let_def)

lemma fst_register_one:
  "fst (register_one env exp d db) =
     (if runner_experimental d \<and> \<not> exp then d else del_experimental d)"
proof -
  obtain d' p where p: "prepare env exp d db = (d', p)" by (cases "prepare env exp d db")
  then have "d' = (if runner_experimental d \<and> \<not> exp then d else del_experimental d)"
    using fst_prepare [of env exp d db] by simp
  with p show ?thesis
    by (cases p) (auto simp: register_one_def split: prod.splits sum.splits)
qed

lemma register_one_skipped:
  "runner_experimental d \<and> \<not> exp \<Longrightarrow>
   register_one env exp d db = (d, db, Inr (Skipped (name d)))"
  by (simp add: register_one_def prepare_skipped)

lemma register_one_lookup_raises:
  assumes "\<not> (runner_experimental d \<and> \<not> exp)"
      and "get_runnertype_by_name env db (name d) = Inl e"
      and "e \<noteq> StackStormDBObjectNotFoundError"
  shows "register_one env exp d db = (del_experimental d, db, Inl e)"
  using assms by (simp add: register_one_def prepare_def Let_def)

lemma register_one_no_escape:
  assumes lookup: "\<And>e. get_runnertype_by_name env db (name d) = Inl e \<Longrightarrow>
                     e = StackStormDBObjectNotFoundError"
      and valid: "\<not> (runner_experimental d \<and> \<not> exp) \<Longrightarrow>
                    validate env (RunnerTypeAPI (del_experimental d)) = None"
      and persist: "\<And>m e db'. add_or_update env db m = (Inl e, db') \<Longrightarrow> is_Exception e"
  shows "\<exists>d' db' out. register_one env exp d db = (d', db', Inr out)"
proof (cases "runner_experimental d \<and> \<not> exp")
  case True
  then show ?thesis by (simp add: register_one_skipped)
next
  case False
  then obtain m u where p: "prepare env exp d db = (del_experimental d, Upsert m u)"
    using lookup valid
    by (cases "get_runnertype_by_name env db (name d)") (auto simp: prepare_def Let_def)
  obtain res db' where a: "add_or_update env db m = (res, db')"
    by (cases "add_or_update env db m")
  show ?thesis
  proof (cases res)
    case (Inl e)
    with a persist have "is_Exception e" by blast
    with p a Inl show ?thesis by (simp add: register_one_def)
  next
    case (Inr r)
    with p a show ?thesis by (simp add: register_one_def)
  qed
qed

lemma register_one_del:
  "register_one env exp (del_experimental d) db = register_one env True d db"
  by (simp add: register_one_def prepare_def)

subsection \<open>The loop\<close>

lemma length_catalog_after: "length (catalog_after (register_loop env exp C db)) = length C"
proof (induction C arbitrary: db)
  case Nil show ?case by simp
next
  case (Cons d C)
  obtain d' db' res where r: "register_one env exp d db = (d', db', res)"
    by (cases "register_one env exp d db")
  show ?case using r Cons.IH [of db'] by (cases res) (simp_all add: Let_def)
qed

lemma length_logged_le: "length (logged (register_loop env exp C db)) \<le> length C"
proof (induction C arbitrary: db)
  case Nil show ?case by simp
next
  case (Cons d C)
  obtain d' db' res where r: "register_one env exp d db = (d', db', res)"
    by (cases "register_one env exp d db")
  show ?case using r Cons.IH [of db'] by (cases res) (simp_all add: Let_def)
qed

lemma raised_iff_length:
  "raised (register_loop env exp C db) = None \<longleftrightarrow>
   length (logged (register_loop env exp C db)) = length C"
proof (induction C arbitrary: db)
  case Nil show ?case by simp
next
  case (Cons d C)
  obtain d' db' res where r: "register_one env exp d db = (d', db', res)"
    by (cases "register_one env exp d db")
  show ?case using r Cons.IH [of db'] by (cases res) (simp_all add: Let_def)
qed

lemma register_loop_Cons_Failed:
  assumes "prepare env exp d db = (d', Upsert m u)"
      and "add_or_update env db m = (Inl e, db')" and "is_Exception e"
  shows "register_loop env exp (d # rest) db =
           (let r = register_loop env exp rest db'
            in r\<lparr>catalog_after := d' # catalog_after r, logged := Failed (name d) # logged r\<rparr>)"
proof -
  have "d' = fst (prepare env exp d db)" using assms(1) by simp
  then have "name d' = name d" by (simp add: fst_prepare)
  then show ?thesis using assms by (simp add: register_one_def)
qed

lemma register_loop_append:
  "register_loop env exp (A @ B) db =
     (let r = register_loop env exp A db
      in case raised r of
           Some e \<Rightarrow> r\<lparr>catalog_after := catalog_after r @ B\<rparr>
         | None \<Rightarrow>
             (let r2 = register_loop env exp B (db_after r)
              in \<lparr>catalog_after = catalog_after r @ catalog_after r2, db_after = db_after r2,
                  logged = logged r @ logged r2, raised = raised r2\<rparr>))"
proof (induction A arbitrary: db)
  case Nil
  show ?case by (cases "register_loop env exp B db") (simp add: Let_def)
next
  case (Cons d A)
  obtain d' db' res where r: "register_one env exp d db = (d', db', res)"
    by (cases "register_one env exp d db")
  show ?case
  proof (cases res)
    case (Inl e)
    with r show ?thesis by simp
  next
    case (Inr out)
    with r show ?thesis
      by (simp add: Cons.IH [of db'] Let_def split: option.splits)
  qed
qed

lemma register_loop_completes:
  assumes lookup:
    "\<And>db n e. get_runnertype_by_name env db n = Inl e \<Longrightarrow> e = StackStormDBObjectNotFoundError"
  and valid:
    "\<And>d. d \<in> set C \<Longrightarrow> \<not> (runner_experimental d \<and> \<not> exp) \<Longrightarrow>
       validate env (RunnerTypeAPI (del_experimental d)) = None"
  and persist: "\<And>db m e db'. add_or_update env db m = (Inl e, db') \<Longrightarrow> is_Exception e"
  shows "raised (register_loop env exp C db) = None"
  using valid
proof (induction C arbitrary: db)
  case Nil
  show ?case by simp
next
  case (Cons d C)
  have "\<exists>d' db' out. register_one env exp d db = (d', db', Inr out)"
    by (rule register_one_no_escape) (auto intro: lookup persist Cons.prems)
  then obtain d' db' out where "register_one env exp d db = (d', db', Inr out)" by blast
  then show ?case using Cons.IH [of db'] Cons.prems by (simp add: Let_def)
qed

text \<open>The fields of a run, one entry at a time: unfolding these evaluates a run in
  time linear in the catalog.\<close>

lemma register_loop_Cons_fields:
  "raised (register_loop env exp (d # rest) db) =
     (case register_one env exp d db of
        (d', db', Inl e) \<Rightarrow> Some e
      | (d', db', Inr out) \<Rightarrow> raised (register_loop env exp rest db'))"
  "logged (register_loop env exp (d # rest) db) =
     (case register_one env exp d db of
        (d', db', Inl e) \<Rightarrow> []
      | (d', db', Inr out) \<Rightarrow> out # logged (register_loop env exp rest db'))"
  "db_after (register_loop env exp (d # rest) db) =
     (case register_one env exp d db of
        (d', db', Inl e) \<Rightarrow> db'
      | (d', db', Inr out) \<Rightarrow> db_after (register_loop env exp rest db'))"
  "catalog_after (register_loop env exp (d # rest) db) =
     (case register_one env exp d db of
        (d', db', Inl e) \<Rightarrow> d' # rest
      | (d', db', Inr out) \<Rightarrow> d' # catalog_after (register_loop env exp rest db'))"
  by (simp_all add: Let_def split: prod.splits sum.splits)

lemma del_left_in_catalog [simp]:
  "del_experimental (left_in_catalog exp d) = del_experimental d"
  by (simp add: left_in_catalog_def)

lemma left_in_catalog_False:
  "experimental d \<noteq> Some False \<Longrightarrow> left_in_catalog False d = d"
  by (cases "experimental d")
     (auto simp: left_in_catalog_def runner_experimental_def del_experimental_def)

lemma catalog_after_eq:
  "catalog_after (register_loop env exp C db) =
     map (left_in_catalog exp) (take (Suc (length (logged (register_loop env exp C db)))) C) @
     drop (Suc (length (logged (register_loop env exp C db)))) C"
proof (induction C arbitrary: db)
  case Nil show ?case by simp
next
  case (Cons d C)
  obtain d' db' res where r: "register_one env exp d db = (d', db', res)"
    by (cases "register_one env exp d db")
  then have d': "d' = left_in_catalog exp d"
    using fst_register_one [of env exp d db] by (simp add: left_in_catalog_def)
  show ?case using r d' Cons.IH [of db'] by (cases res) (simp_all add: Let_def)
qed

lemma catalog_after_False_unchanged:
  assumes "\<forall>d \<in> set C. experimental d \<noteq> Some False"
  shows "catalog_after (register_loop env False C db) = C"
proof -
  have "map (left_in_catalog False) (take n C) = take n C" for n
    using assms by (intro map_idI left_in_catalog_False) (auto dest: in_set_takeD)
  then show ?thesis by (simp add: catalog_after_eq)
qed

lemma register_loop_del:
  "register_loop env exp (map del_experimental C) db =
     (register_loop env True C db)\<lparr>catalog_after := map del_experimental C\<rparr>"
proof (induction C arbitrary: db)
  case Nil show ?case by simp
next
  case (Cons d C)
  obtain d' db' res where r: "register_one env True d db = (d', db', res)"
    by (cases "register_one env True d db")
  then have d': "d' = del_experimental d"
    using fst_register_one [of env True d db] by simp
  show ?case using r d' Cons.IH [of db']
    by (cases res) (simp_all add: register_one_del Let_def)
qed

lemma logged_nth:
  "i < length (logged (register_loop env exp C db)) \<Longrightarrow>
     \<exists>dbi d' db'. register_one env exp (C ! i) dbi =
         (d', db', Inr (logged (register_loop env exp C db) ! i))"
proof (induction C arbitrary: db i)
  case Nil
  then show ?case by simp
next
  case (Cons d C)
  obtain d' db' res where r: "register_one env exp d db = (d', db', res)"
    by (cases "register_one env exp d db")
  show ?case
  proof (cases res)
    case (Inl e)
    with r Cons.prems show ?thesis by simp
  next
    case (Inr out)
    show ?thesis
    proof (cases i)
      case 0
      with r Inr show ?thesis by (auto simp: Let_def)
    next
      case (Suc j)
      with Cons.prems r Inr have "j < length (logged (register_loop env exp C db'))"
        by (simp add: Let_def)
      from Cons.IH [OF this] Suc r Inr show ?thesis by (simp add: Let_def)
    qed
  qed
qed

lemma catalog_after_nth:
  assumes "i < length (logged (register_loop env exp C db))"
  shows "catalog_after (register_loop env exp C db) ! i = left_in_catalog exp (C ! i)"
proof -
  let ?k = "Suc (length (logged (register_loop env exp C db)))"
  have le: "length (logged (register_loop env exp C db)) \<le> length C"
    by (rule length_logged_le)
  with assms have "i < length (map (left_in_catalog exp) (take ?k C))" by simp
  then have "catalog_after (register_loop env exp C db) ! i =
               map (left_in_catalog exp) (take ?k C) ! i"
    by (subst catalog_after_eq) (simp only: nth_append if_True)
  also have "\<dots> = left_in_catalog exp (C ! i)" using assms le by simp
  finally show ?thesis .
qed

lemma catalog_after_complete:
  assumes "raised (register_loop env exp C db) = None"
  shows "catalog_after (register_loop env exp C db) = map (left_in_catalog exp) C"
proof -
  from assms have "length (logged (register_loop env exp C db)) = length C"
    by (simp only: raised_iff_length)
  then show ?thesis
    by (subst catalog_after_eq) (simp only: take_all drop_all append_Nil2 le_Suc_eq, simp)
qed

subsection \<open>The catalog\<close>

lemma catalog_names:
  "map name (RUNNER_TYPES c) =
     [''run-local'', ''run-local-script'', ''run-remote'', ''run-remote-script'',
      ''http-runner'', ''mistral-v1'', ''mistral-v2'', ''action-chain'', ''run-python'',
      ''run-windows-cmd'', ''run-windows-script'']"
  by (simp add: RUNNER_TYPES_def run_local_def run_local_script_def run_remote_def
        run_remote_script_def http_runner_def mistral_v1_def mistral_v2_def action_chain_def
        run_python_def run_windows_cmd_def run_windows_script_def)

lemma catalog_experimental:
  "map experimental (RUNNER_TYPES c) =
     [None, None, None, None, None, None, None, None, None, Some True, Some True]"
  by (simp add: RUNNER_TYPES_def run_local_def run_local_script_def run_remote_def
        run_remote_script_def http_runner_def mistral_v1_def mistral_v2_def action_chain_def
        run_python_def run_windows_cmd_def run_windows_script_def)

lemma catalog_simps [simp]:
  "name (run_local c) = ''run-local''"
  "name (run_local_script c) = ''run-local-script''"
  "name (run_remote c) = ''run-remote''"
  "name (run_remote_script c) = ''run-remote-script''"
  "name (http_runner c) = ''http-runner''"
  "name (mistral_v1 c) = ''mistral-v1''"
  "name (mistral_v2 c) = ''mistral-v2''"
  "name (action_chain c) = ''action-chain''"
  "name (run_python c) = ''run-python''"
  "name (run_windows_cmd c) = ''run-windows-cmd''"
  "name (run_windows_script c) = ''run-windows-script''"
  "experimental (run_local c) = None"
  "experimental (run_local_script c) = None"
  "experimental (run_remote c) = None"
  "experimental (run_remote_script c) = None"
  "experimental (http_runner c) = None"
  "experimental (mistral_v1 c) = None"
  "experimental (mistral_v2 c) = None"
  "experimental (action_chain c) = None"
  "experimental (run_python c) = None"
  "experimental (run_windows_cmd c) = Some True"
  "experimental (run_windows_script c) = Some True"
  using catalog_names [of c] catalog_experimental [of c] by (simp_all add: RUNNER_TYPES_def)

lemma catalog_violations:
  "\<not> has_required_with_default (run_local c)"
  "\<not> has_required_with_default (run_local_script c)"
  "\<not> has_required_with_default (run_remote c)"
  "\<not> has_required_with_default (run_remote_script c)"
  "\<not> has_required_with_default (http_runner c)"
  "\<not> has_required_with_default (mistral_v1 c)"
  "\<not> has_required_with_default (mistral_v2 c)"
  "\<not> has_required_with_default (action_chain c)"
  "\<not> has_required_with_default (run_python c)"
  "map fst (filter (\<lambda>kv. required_with_default (snd kv))
              (runner_parameters (run_windows_cmd c))) = [''username'']"
  "map fst (filter (\<lambda>kv. required_with_default (snd kv))
              (runner_parameters (run_windows_script c))) = [''username'', ''share'']"
  by (simp_all add: has_required_with_default_def required_with_default_def run_local_def
        run_local_script_def run_remote_def run_remote_script_def http_runner_def
        mistral_v1_def mistral_v2_def action_chain_def run_python_def run_windows_cmd_def
        run_windows_script_def)

lemma catalog_windows_violate:
  "has_required_with_default (run_windows_cmd c)"
  "has_required_with_default (run_windows_script c)"
proof -
  have "filter (\<lambda>kv. required_with_default (snd kv)) (runner_parameters (run_windows_cmd c)) \<noteq> []"
       "filter (\<lambda>kv. required_with_default (snd kv)) (runner_parameters (run_windows_script c)) \<noteq> []"
    using catalog_violations(10,11) [of c] by auto
  then show "has_required_with_default (run_windows_cmd c)"
            "has_required_with_default (run_windows_script c)"
    by (simp_all add: has_required_with_default_def list_ex_iff filter_empty_conv)
qed

lemma catalog_modules:
  "runner_module (run_local c) \<noteq> []"
  "runner_module (run_local_script c) \<noteq> []"
  "runner_module (run_remote c) \<noteq> []"
  "runner_module (run_remote_script c) \<noteq> []"
  "runner_module (http_runner c) \<noteq> []"
  "runner_module (mistral_v1 c) \<noteq> []"
  "runner_module (mistral_v2 c) \<noteq> []"
  "runner_module (action_chain c) \<noteq> []"
  "runner_module (run_python c) \<noteq> []"
  "runner_module (run_windows_cmd c) \<noteq> []"
  "runner_module (run_windows_script c) \<noteq> []"
  by (simp_all add: run_local_def run_local_script_def run_remote_def run_remote_script_def
        http_runner_def mistral_v1_def mistral_v2_def action_chain_def run_python_def
        run_windows_cmd_def run_windows_script_def)

lemma del_experimental_None: "experimental d = None \<Longrightarrow> del_experimental d = d"
  by (cases d) (simp add: del_experimental_def)

lemma catalog_del_experimental [simp]:
  "del_experimental (run_local c) = run_local c"
  "del_experimental (run_local_script c) = run_local_script c"
  "del_experimental (run_remote c) = run_remote c"
  "del_experimental (run_remote_script c) = run_remote_script c"
  "del_experimental (http_runner c) = http_runner c"
  "del_experimental (mistral_v1 c) = mistral_v1 c"
  "del_experimental (mistral_v2 c) = mistral_v2 c"
  "del_experimental (action_chain c) = action_chain c"
  "del_experimental (run_python c) = run_python c"
  by (simp_all add: del_experimental_None)

lemma validate_spec_del:
  "validate_spec (del_experimental d) = validate_spec d"
  by (simp add: validate_spec_def has_required_with_default_def del_experimental_def)

lemma catalog_validate_spec [simp]:
  "validate_spec (run_local c) = None"
  "validate_spec (run_local_script c) = None"
  "validate_spec (run_remote c) = None"
  "validate_spec (run_remote_script c) = None"
  "validate_spec (http_runner c) = None"
  "validate_spec (mistral_v1 c) = None"
  "validate_spec (mistral_v2 c) = None"
  "validate_spec (action_chain c) = None"
  "validate_spec (run_python c) = None"
  "validate_spec (run_windows_cmd c) = Some (ValidationError ''required parameter with a default'')"
  "validate_spec (run_windows_script c) =
     Some (ValidationError ''required parameter with a default'')"
  by (simp_all add: validate_spec_def catalog_violations catalog_windows_violate catalog_modules)

subsection \<open>The store\<close>

lemma store_env_lookup_total:
  "get_runnertype_by_name (store_env v no_fault pf) db n = Inl e \<Longrightarrow>
   e = StackStormDBObjectNotFoundError"
  by (simp add: store_env_def no_fault_def find_by_name_def split: option.splits)

lemma store_env_persist_Exception:
  "add_or_update (store_env v lf no_fault) db m = (Inl e, db') \<Longrightarrow> is_Exception e"
  by (auto simp: store_env_def no_fault_def upsert_def split: option.splits if_splits)

subsection \<open>The example inputs\<close>

lemma example_runner_simps [simp]:
  "name (example_runner n) = n"
  "\<not> runner_experimental (example_runner n)"
  "del_experimental (example_runner n) = example_runner n"
  "validate_spec (example_runner n) = None"
  by (simp_all add: example_runner_def runner_experimental_def del_experimental_def
        validate_spec_def has_required_with_default_def)

lemma invalid_runner_simps [simp]:
  "name (invalid_runner n) = n"
  "\<not> runner_experimental (invalid_runner n)"
  "del_experimental (invalid_runner n) = invalid_runner n"
  "validate_spec (invalid_runner n) = Some (ValidationError ''runner_module is empty'')"
  by (simp_all add: invalid_runner_def example_runner_def runner_experimental_def
        del_experimental_def validate_spec_def)

lemma experimental_runner_simps [simp]:
  "name (experimental_runner n) = n"
  "runner_experimental (experimental_runner n)"
  "del_experimental (experimental_runner n) = example_runner n"
  by (simp_all add: experimental_runner_def example_runner_def runner_experimental_def
        del_experimental_def)

lemma invalid_experimental_runner_simps [simp]:
  "name (invalid_experimental_runner n) = n"
  "runner_experimental (invalid_experimental_runner n)"
  "del_experimental (invalid_experimental_runner n) = invalid_runner n"
  by (simp_all add: invalid_experimental_runner_def invalid_runner_def example_runner_def
        runner_experimental_def del_experimental_def)

lemmas run_defs =
  register_runner_types_def register_one_def prepare_def store_env_def no_fault_def
  fault_on_def find_by_name_def upsert_def RunnerTypeAPI_def to_model_def Let_def

subsection \<open>Registration on the store\<close>

lemma first_named_cong:
  "map name s = map name t \<Longrightarrow> first_named n s = first_named n t"
proof (induction s arbitrary: t)
  case Nil
  then show ?case by simp
next
  case (Cons r s)
  then obtain r' t' where t: "t = r' # t'" by (cases t) auto
  with Cons.prems have "name r = name r'" "map name s = map name t'" by simp_all
  with Cons.IH [of t'] t show ?case by simp
qed

lemma first_named_Some:
  "first_named n s = Some i \<Longrightarrow> i < length s \<and> name (s ! i) = n"
proof (induction s arbitrary: i)
  case Nil
  then show ?case by simp
next
  case (Cons r s)
  show ?case
  proof (cases "name r = n")
    case True
    with Cons.prems show ?thesis by simp
  next
    case False
    with Cons.prems obtain j where "first_named n s = Some j" "i = Suc j" by auto
    with Cons.IH [of j] show ?thesis by simp
  qed
qed

lemma first_named_None_iff: "first_named n s = None \<longleftrightarrow> n \<notin> name ` set s"
  by (induction s) auto

lemma first_named_extend:
  "first_named n s = Some i \<Longrightarrow> map name t = map name s @ extra \<Longrightarrow>
   first_named n t = Some i"
proof (induction s arbitrary: t i)
  case Nil
  then show ?case by simp
next
  case (Cons r s)
  from Cons.prems(2) obtain r' t' where t: "t = r' # t'" by (cases t) auto
  with Cons.prems(2) have n: "name r' = name r" and m: "map name t' = map name s @ extra"
    by simp_all
  show ?case
  proof (cases "name r = n")
    case True
    with Cons.prems(1) t n show ?thesis by simp
  next
    case False
    with Cons.prems(1) obtain j where j: "first_named n s = Some j" "i = Suc j" by auto
    from Cons.IH [OF j(1) m] False t n j(2) show ?thesis by simp
  qed
qed

lemma names_extend:
  "map name t = map name s @ extra \<Longrightarrow> name ` set s \<subseteq> name ` set t"
proof -
  assume "map name t = map name s @ extra"
  then have "set (map name t) = set (map name s) \<union> set extra" by (simp only: set_append)
  then show ?thesis by auto
qed

lemma first_named_append_Some:
  "first_named n s = Some i \<Longrightarrow> first_named n (s @ t) = Some i"
  by (induction s arbitrary: i) (auto split: if_splits)

lemma first_named_snoc_None:
  "first_named n s = None \<Longrightarrow>
   first_named n (s @ [f]) = (if name f = n then Some (length s) else None)"
  by (induction s) (auto split: if_splits)

lemma map_name_update:
  "first_named (name f) s = Some i \<Longrightarrow> map name (s[i := f]) = map name s"
  using first_named_Some [of "name f" s i] by (simp add: map_update list_update_same_conv)

lemma first_named_update:
  "first_named (name f) s = Some i \<Longrightarrow> first_named n (s[i := f]) = first_named n s"
  by (rule first_named_cong) (rule map_name_update)

lemma register_one_store_env:
  assumes "\<not> (runner_experimental d \<and> \<not> exp)"
  shows "register_one (store_env v no_fault pf) exp d s =
     (case v (del_experimental d) of
        Some e \<Rightarrow> (del_experimental d, s, Inl e)
      | None \<Rightarrow>
         (case pf (name d) of
            Some e \<Rightarrow>
              (del_experimental d, s, if is_Exception e then Inr (Failed (name d)) else Inl e)
          | None \<Rightarrow>
             (case first_named (name d) s of
                Some i \<Rightarrow>
                  (del_experimental d, s[i := del_experimental d],
                   Inr (Updated \<lparr>record_id = Some i, record_fields = del_experimental d\<rparr>))
              | None \<Rightarrow>
                  (del_experimental d, s @ [del_experimental d],
                   Inr (Created \<lparr>record_id = Some (length s),
                                 record_fields = del_experimental d\<rparr>)))))"
proof (cases "first_named (name d) s")
  case None
  with assms show ?thesis
    by (auto simp: run_defs split: option.splits)
next
  case (Some i)
  then have "i < length s" by (simp add: first_named_Some)
  with Some assms show ?thesis
    by (auto simp: run_defs split: option.splits)
qed

lemma register_loop_invariant:
  assumes "P db"
      and step: "\<And>d db d' db' res. P db \<Longrightarrow> register_one env exp d db = (d', db', res) \<Longrightarrow> P db'"
  shows "P (db_after (register_loop env exp C db))"
  using assms(1)
proof (induction C arbitrary: db)
  case Nil
  then show ?case by simp
next
  case (Cons d C)
  obtain d' db' res where r: "register_one env exp d db = (d', db', res)"
    by (cases "register_one env exp d db")
  with Cons.prems have "P db'" by (rule step)
  with r Cons.IH [of db'] show ?case by (cases res) (simp_all add: Let_def)
qed

lemma register_one_store_names:
  assumes "register_one (store_env v lf pf) exp d s = (d', s', res)"
  shows "\<exists>extra. map name s' = map name s @ extra"
proof (cases "runner_experimental d \<and> \<not> exp")
  case True
  with assms show ?thesis by (simp add: register_one_skipped)
next
  case False
  show ?thesis
  proof (cases "first_named (name d) s")
    case None
    with assms False show ?thesis
      by (auto simp: run_defs split: option.splits if_splits sum.splits)
  next
    case (Some i)
    then have "i < length s" "map name (s[i := del_experimental d]) = map name s"
      using map_name_update [of "del_experimental d" s i] by (simp_all add: first_named_Some)
    with Some assms False show ?thesis
      by (auto simp: run_defs split: option.splits if_splits sum.splits)
  qed
qed


lemma register_one_store_cases:
  assumes "register_one (store_env v no_fault pf) exp d s = (d', s', res)"
  obtains (same) "s' = s" "\<forall>rec. res \<noteq> Inr (Created rec) \<and> res \<noteq> Inr (Updated rec)"
    | (updated) i where "first_named (name d) s = Some i" "s' = s[i := del_experimental d]"
        "res = Inr (Updated \<lparr>record_id = Some i, record_fields = del_experimental d\<rparr>)"
    | (created) "first_named (name d) s = None" "s' = s @ [del_experimental d]"
        "res = Inr (Created \<lparr>record_id = Some (length s), record_fields = del_experimental d\<rparr>)"
proof (cases "runner_experimental d \<and> \<not> exp")
  case True
  with assms have "s' = s" "res = Inr (Skipped (name d))" by (auto simp: register_one_skipped)
  then show ?thesis by (intro same) auto
next
  case False
  from assms show ?thesis
    unfolding register_one_store_env [OF False]
    by (auto split: option.splits if_splits intro: same updated created)
qed

lemma register_one_store_distinct:
  assumes "register_one (store_env v no_fault pf) exp d s = (d', s', res)"
      and "distinct (map name s)"
  shows "distinct (map name s')"
  using assms(1)
proof (cases rule: register_one_store_cases)
  case same
  with assms(2) show ?thesis by simp
next
  case (updated i)
  then have "map name s' = map name s"
    using map_name_update [of "del_experimental d" s i] by simp
  with assms(2) show ?thesis by simp
next
  case created
  with assms(2) show ?thesis by (simp add: first_named_None_iff)
qed

lemma register_one_store_saved:
  assumes "register_one (store_env v no_fault pf) exp d s = (d', s', Inr out)"
      and "saved_name out = Some n"
  shows "n \<in> name ` set s'"
  using assms(1)
proof (cases rule: register_one_store_cases)
  case same
  with assms(2) show ?thesis by (cases out) auto
next
  case (updated i)
  then have "map name s' = map name s" "i < length s" "name (s ! i) = name d"
    using map_name_update [of "del_experimental d" s i] first_named_Some [of "name d" s i]
    by simp_all
  moreover from updated assms(2) have "n = name d" by auto
  ultimately have "name (s' ! i) = n" "i < length s'"
    by (metis length_map nth_map, metis length_map)
  then show ?thesis by (metis imageI nth_mem)
next
  case created
  with assms(2) show ?thesis by auto
qed

lemma register_one_store_length:
  assumes "register_one (store_env v no_fault pf) exp d s = (d', s', res)"
  shows "length s' = length s + (case res of Inr out \<Rightarrow> if created out then 1 else 0 | Inl e \<Rightarrow> 0)"
  using assms
proof (cases rule: register_one_store_cases)
  case same
  then show ?thesis by (cases res; cases "projr res") (auto split: sum.splits)
qed auto

lemma names_grow:
  "n \<in> name ` set s \<Longrightarrow>
   n \<in> name ` set (db_after (register_loop (store_env v lf pf) exp C s))"
proof (rule register_loop_invariant [where P = "\<lambda>s. n \<in> name ` set s"])
  fix d db d' db' res
  assume "n \<in> name ` set db" "register_one (store_env v lf pf) exp d db = (d', db', res)"
  then show "n \<in> name ` set db'"
    using register_one_store_names [of v lf pf exp d db d' db' res] names_extend [of db' db]
    by blast
qed

lemma saved_names_in_store:
  "out \<in> set (logged (register_loop (store_env v no_fault pf) exp C s)) \<Longrightarrow>
   saved_name out = Some n \<Longrightarrow>
   n \<in> name ` set (db_after (register_loop (store_env v no_fault pf) exp C s))"
proof (induction C arbitrary: s)
  case Nil
  then show ?case by simp
next
  case (Cons d C)
  obtain d' s' res where r: "register_one (store_env v no_fault pf) exp d s = (d', s', res)"
    by (cases "register_one (store_env v no_fault pf) exp d s")
  show ?case
  proof (cases res)
    case (Inl e)
    with r Cons.prems show ?thesis by simp
  next
    case (Inr o1)
    with r Cons.prems(1) have
      "out = o1 \<or> out \<in> set (logged (register_loop (store_env v no_fault pf) exp C s'))"
      by (simp add: Let_def)
    then show ?thesis
    proof
      assume "out = o1"
      with r Inr Cons.prems(2) have "n \<in> name ` set s'"
        by (blast intro: register_one_store_saved)
      then have "n \<in> name ` set (db_after (register_loop (store_env v no_fault pf) exp C s'))"
        by (rule names_grow)
      with r Inr show ?thesis by (simp add: Let_def)
    next
      assume "out \<in> set (logged (register_loop (store_env v no_fault pf) exp C s'))"
      from Cons.IH [OF this Cons.prems(2)] r Inr show ?thesis by (simp add: Let_def)
    qed
  qed
qed

lemma store_length_after:
  "length (db_after (register_loop (store_env v no_fault pf) exp C s)) =
     length s + length (filter created (logged (register_loop (store_env v no_fault pf) exp C s)))"
proof (induction C arbitrary: s)
  case Nil
  show ?case by simp
next
  case (Cons d C)
  obtain d' s' res where r: "register_one (store_env v no_fault pf) exp d s = (d', s', res)"
    by (cases "register_one (store_env v no_fault pf) exp d s")
  from register_one_store_length [OF r] r Cons.IH [of s'] show ?case
    by (cases res) (simp_all add: Let_def)
qed

lemma distinct_count_one:
  "distinct (map name s) \<Longrightarrow> n \<in> name ` set s \<Longrightarrow>
   length (filter (\<lambda>x. name x = n) s) = 1"
proof (induction s)
  case Nil
  then show ?case by simp
next
  case (Cons r s)
  show ?case
  proof (cases "name r = n")
    case True
    with Cons.prems have "n \<notin> name ` set s" by simp
    then have "\<forall>x \<in> set s. name x \<noteq> n" by blast
    then have "filter (\<lambda>x. name x = n) s = []"
      by (simp add: filter_empty_conv)
    with True show ?thesis by simp
  next
    case False
    with Cons show ?thesis by auto
  qed
qed

subsection \<open>Writing the same records twice\<close>

lemma map_name_store_write:
  "map name (store_write s f) =
     (if name f \<in> name ` set s then map name s else map name s @ [name f])"
proof (cases "first_named (name f) s")
  case None
  then have "name f \<notin> name ` set s" by (simp add: first_named_None_iff)
  with None show ?thesis by (simp add: store_write_def)
next
  case (Some i)
  then have "name f \<in> name ` set s" using first_named_None_iff [of "name f" s] by auto
  with Some show ?thesis by (simp add: store_write_def map_name_update)
qed

lemma first_named_store_write:
  "first_named n s = Some i \<Longrightarrow> first_named n (store_write s f) = Some i"
  by (rule first_named_extend [where extra = "if name f \<in> name ` set s then [] else [name f]"])
     (simp_all add: map_name_store_write)

lemma store_write_present:
  "first_named (name f) s = Some i \<Longrightarrow> store_write s f = s[i := f]"
  by (simp add: store_write_def)

lemma store_write_slot:
  "\<exists>i. first_named (name f) (store_write s f) = Some i \<and> store_write s f ! i = f"
proof (cases "first_named (name f) s")
  case None
  then show ?thesis by (simp add: store_write_def first_named_snoc_None)
next
  case (Some i)
  then have "i < length s" by (simp add: first_named_Some)
  with Some show ?thesis by (simp add: store_write_def first_named_update)
qed

lemma store_write_absorb:
  assumes "name f = name g"
  shows "store_write (store_write s f) g = store_write s g"
proof (cases "first_named (name f) s")
  case None
  with assms show ?thesis by (simp add: store_write_def first_named_snoc_None)
next
  case (Some i)
  then have "first_named (name g) (s[i := f]) = Some i"
    using assms first_named_update [of f s i "name g"] by simp
  with Some assms show ?thesis by (simp add: store_write_def)
qed

lemma store_write_commute:
  assumes "name f \<noteq> name g"
      and "first_named (name f) s = Some i" and "first_named (name g) s = Some j"
  shows "store_write (store_write s f) g = store_write (store_write s g) f"
proof -
  from assms have "i \<noteq> j" using first_named_Some [of "name f" s i] first_named_Some [of "name g" s j]
    by auto
  moreover have "first_named (name g) (s[i := f]) = Some j"
    using assms first_named_update [of f s i "name g"] by simp
  moreover have "first_named (name f) (s[j := g]) = Some i"
    using assms first_named_update [of g s j "name f"] by simp
  ultimately show ?thesis using assms(2,3)
    by (simp add: store_write_def list_update_swap)
qed

lemma store_write_other_slot:
  assumes "first_named (name f) s = Some i" and "name g \<noteq> name f"
  shows "store_write s g ! i = s ! i"
proof (cases "first_named (name g) s")
  case None
  from assms(1) have "i < length s" by (simp add: first_named_Some)
  with None show ?thesis by (simp add: store_write_def nth_append)
next
  case (Some j)
  with assms have "i \<noteq> j"
    using first_named_Some [of "name f" s i] first_named_Some [of "name g" s j] by auto
  with Some show ?thesis by (simp add: store_write_def)
qed

lemma fold_write_keeps_first_named:
  "first_named n s = Some i \<Longrightarrow> first_named n (fold (\<lambda>f s. store_write s f) W s) = Some i"
  by (induction W arbitrary: s) (simp_all add: first_named_store_write)

lemma fold_write_keeps_slot:
  assumes "first_named (name f) s = Some i" and "name f \<notin> name ` set W"
  shows "fold (\<lambda>f s. store_write s f) W s ! i = s ! i"
  using assms
proof (induction W arbitrary: s)
  case Nil
  show ?case by simp
next
  case (Cons g W)
  from Cons.prems have "first_named (name f) (store_write s g) = Some i"
    by (simp add: first_named_store_write)
  moreover from Cons.prems have "name f \<notin> name ` set W" "name g \<noteq> name f" by auto
  ultimately show ?case
    using Cons.IH [of "store_write s g"] store_write_other_slot [OF Cons.prems(1), of g]
    by simp
qed

lemma fold_write_absorbs:
  assumes "name f \<in> name ` set W"
      and "\<forall>g \<in> set W. first_named (name g) s \<noteq> None"
      and "first_named (name f) s \<noteq> None"
  shows "fold (\<lambda>f s. store_write s f) W (store_write s f) = fold (\<lambda>f s. store_write s f) W s"
  using assms
proof (induction W arbitrary: s)
  case Nil
  then show ?case by simp
next
  case (Cons g W)
  show ?case
  proof (cases "name g = name f")
    case True
    then show ?thesis by (simp add: store_write_absorb)
  next
    case False
    with Cons.prems(1) have in_W: "name f \<in> name ` set W" by auto
    from Cons.prems obtain i j where ij: "first_named (name f) s = Some i" "first_named (name g) s = Some j"
      by auto
    with False have sw: "store_write (store_write s f) g = store_write (store_write s g) f"
      by (intro store_write_commute) auto
    have "\<forall>h \<in> set W. first_named (name h) (store_write s g) \<noteq> None"
      using Cons.prems(2) by (auto simp: first_named_store_write)
    moreover have "first_named (name f) (store_write s g) \<noteq> None"
      using ij(1) by (simp add: first_named_store_write)
    ultimately show ?thesis
      using Cons.IH [of "store_write s g"] in_W by (simp add: sw)
  qed
qed

lemma fold_write_names_present:
  "g \<in> set W \<Longrightarrow> first_named (name g) (fold (\<lambda>f s. store_write s f) W s) \<noteq> None"
proof (induction W arbitrary: s)
  case Nil
  then show ?case by simp
next
  case (Cons f W)
  show ?case
  proof (cases "g = f")
    case True
    obtain i where "first_named (name f) (store_write s f) = Some i"
      using store_write_slot [of f s] by blast
    then show ?thesis using True by (simp add: fold_write_keeps_first_named)
  next
    case False
    with Cons show ?thesis by simp
  qed
qed

lemma fold_write_idem:
  "fold (\<lambda>f s. store_write s f) W (fold (\<lambda>f s. store_write s f) W s) =
   fold (\<lambda>f s. store_write s f) W s"
proof (induction W arbitrary: s)
  case Nil
  show ?case by simp
next
  case (Cons f W)
  let ?T = "store_write s f"
  let ?S1 = "fold (\<lambda>f s. store_write s f) W ?T"
  obtain i where i: "first_named (name f) ?T = Some i" "?T ! i = f"
    using store_write_slot [of f s] by blast
  then have i1: "first_named (name f) ?S1 = Some i"
    by (simp add: fold_write_keeps_first_named)
  have "fold (\<lambda>f s. store_write s f) W (store_write ?S1 f) = fold (\<lambda>f s. store_write s f) W ?S1"
  proof (cases "name f \<in> name ` set W")
    case True
    then show ?thesis
      using i1 fold_write_names_present [of _ W ?T]
      by (intro fold_write_absorbs) auto
  next
    case False
    with i have "?S1 ! i = f" by (simp add: fold_write_keeps_slot)
    with i1 have "store_write ?S1 f = ?S1"
      by (metis list_update_id store_write_present)
    then show ?thesis by simp
  qed
  with Cons.IH [of ?T] show ?case by simp
qed


lemma in_scope_Cons:
  "in_scope exp (d # C) =
     (if runner_experimental d \<and> \<not> exp then in_scope exp C
      else del_experimental d # in_scope exp C)"
  by (simp add: in_scope_def)

lemma left_in_catalog_cases:
  obtains (skipped) "runner_experimental d \<and> \<not> exp" "left_in_catalog exp d = d"
  | (kept) "\<not> (runner_experimental d \<and> \<not> exp)" "left_in_catalog exp d = del_experimental d"
  by (cases "runner_experimental d \<and> \<not> exp") (simp_all add: left_in_catalog_def)

lemma left_in_catalog_idem:
  "left_in_catalog exp (left_in_catalog exp d) = left_in_catalog exp d"
  by (rule left_in_catalog_cases [where d = d and exp = exp]) (simp_all add: left_in_catalog_def)

lemma in_scope_left: "in_scope exp (map (left_in_catalog exp) C) = in_scope exp C"
proof (induction C)
  case Nil
  show ?case by simp
next
  case (Cons d C)
  show ?case
  proof (rule left_in_catalog_cases [where d = d and exp = exp])
    assume "runner_experimental d \<and> \<not> exp" "left_in_catalog exp d = d"
    with Cons.IH show ?thesis by (simp add: in_scope_Cons)
  next
    assume s: "\<not> (runner_experimental d \<and> \<not> exp)"
      and "left_in_catalog exp d = del_experimental d"
    then show ?thesis by (simp add: in_scope_Cons Cons.IH s)
  qed
qed

lemma valid_in_scope_left:
  assumes "\<forall>d \<in> set C. \<not> (runner_experimental d \<and> \<not> exp) \<longrightarrow> P (name d) (del_experimental d)"
  shows "\<forall>d \<in> set (map (left_in_catalog exp) C).
           \<not> (runner_experimental d \<and> \<not> exp) \<longrightarrow> P (name d) (del_experimental d)"
proof (intro ballI impI)
  fix d' assume "d' \<in> set (map (left_in_catalog exp) C)"
    and s: "\<not> (runner_experimental d' \<and> \<not> exp)"
  then obtain d where d: "d \<in> set C" "d' = left_in_catalog exp d" by auto
  show "P (name d') (del_experimental d')"
  proof (rule left_in_catalog_cases [where d = d and exp = exp])
    assume "runner_experimental d \<and> \<not> exp" "left_in_catalog exp d = d"
    with s d show ?thesis by simp
  next
    assume "\<not> (runner_experimental d \<and> \<not> exp)"
      and "left_in_catalog exp d = del_experimental d"
    with assms d show ?thesis by simp
  qed
qed

lemma register_one_store_write:
  assumes "\<not> (runner_experimental d \<and> \<not> exp)" and "v (del_experimental d) = None"
  shows "register_one (store_env v no_fault no_fault) exp d s =
           (del_experimental d, store_write s (del_experimental d),
            Inr (case first_named (name d) s of
                   Some i \<Rightarrow> Updated \<lparr>record_id = Some i, record_fields = del_experimental d\<rparr>
                 | None \<Rightarrow> Created \<lparr>record_id = Some (length s),
                                       record_fields = del_experimental d\<rparr>))"
  using assms(2)
  by (simp add: register_one_store_env [OF assms(1)] no_fault_def store_write_def
           split: option.splits)

lemma run_without_failure:
  assumes "\<forall>d \<in> set C. \<not> (runner_experimental d \<and> \<not> exp) \<longrightarrow> v (del_experimental d) = None"
  shows "raised (register_loop (store_env v no_fault no_fault) exp C s) = None \<and>
         db_after (register_loop (store_env v no_fault no_fault) exp C s) =
           fold (\<lambda>f s. store_write s f) (in_scope exp C) s"
  using assms
proof (induction C arbitrary: s)
  case Nil
  show ?case by (simp add: in_scope_def)
next
  case (Cons d C)
  show ?case
  proof (cases "runner_experimental d \<and> \<not> exp")
    case True
    with Cons.IH [of s] Cons.prems show ?thesis
      by (simp add: register_one_skipped in_scope_Cons Let_def)
  next
    case False
    with Cons.prems have "v (del_experimental d) = None" by simp
    then have step: "register_one (store_env v no_fault no_fault) exp d s =
           (del_experimental d, store_write s (del_experimental d),
            Inr (case first_named (name d) s of
                   Some i \<Rightarrow> Updated \<lparr>record_id = Some i, record_fields = del_experimental d\<rparr>
                 | None \<Rightarrow> Created \<lparr>record_id = Some (length s),
                                       record_fields = del_experimental d\<rparr>))"
      by (rule register_one_store_write [of d exp v s, OF False])
    from Cons.prems have "\<forall>d \<in> set C. \<not> (runner_experimental d \<and> \<not> exp) \<longrightarrow>
                            v (del_experimental d) = None"
      by simp
    from Cons.IH [OF this, of "store_write s (del_experimental d)"]
    show ?thesis by (simp add: step in_scope_Cons False Let_def)
  qed
qed

lemma run_on_known_names:
  assumes "\<forall>d \<in> set C. \<not> (runner_experimental d \<and> \<not> exp) \<longrightarrow>
             v (del_experimental d) = None \<and> first_named (name d) s0 \<noteq> None"
      and "map name s = map name s0"
  shows "logged (register_loop (store_env v no_fault no_fault) exp C s) =
           map (\<lambda>d. if runner_experimental d \<and> \<not> exp then Skipped (name d)
                    else Updated \<lparr>record_id = first_named (name d) s0,
                                  record_fields = del_experimental d\<rparr>) C"
  using assms
proof (induction C arbitrary: s)
  case Nil
  show ?case by simp
next
  case (Cons d C)
  show ?case
  proof (cases "runner_experimental d \<and> \<not> exp")
    case True
    with Cons.IH [of s] Cons.prems show ?thesis
      by (simp add: register_one_skipped Let_def)
  next
    case False
    with Cons.prems(1) obtain i where v: "v (del_experimental d) = None"
      and i0: "first_named (name d) s0 = Some i" by auto
    with Cons.prems(2) have i: "first_named (name d) s = Some i"
      using first_named_cong [of s s0 "name d"] by simp
    then have "map name (store_write s (del_experimental d)) = map name s0"
      using Cons.prems(2) map_name_update [of "del_experimental d" s i]
      by (simp add: store_write_def)
    with Cons.IH [of "store_write s (del_experimental d)"] Cons.prems(1)
    have "logged (register_loop (store_env v no_fault no_fault) exp C
                    (store_write s (del_experimental d))) =
           map (\<lambda>d. if runner_experimental d \<and> \<not> exp then Skipped (name d)
                    else Updated \<lparr>record_id = first_named (name d) s0,
                                  record_fields = del_experimental d\<rparr>) C"
      by simp
    then show ?thesis
      by (simp add: register_one_store_write [of d exp v s, OF False v] False i i0 Let_def)
  qed
qed

subsection \<open>A call with the flag, then another call\<close>

lemma in_scope_True: "in_scope True C = map del_experimental C"
  by (simp add: in_scope_def)

lemma in_scope_del: "in_scope exp (map del_experimental C) = map del_experimental C"
  by (induction C) (simp_all add: in_scope_def)

lemma register_one_del_not_Skipped:
  "register_one env exp (del_experimental d) db \<noteq> (d', db', Inr (Skipped n))"
  by (auto simp: register_one_def prepare_def Let_def
           split: sum.splits option.splits prod.splits if_splits)

lemma prepare_in_scope:
  assumes "\<forall>e. get_runnertype_by_name env db (name d) = Inl e \<longrightarrow>
                 e = StackStormDBObjectNotFoundError"
      and "validate env (RunnerTypeAPI (del_experimental d)) = None"
  shows "\<exists>m u. prepare env exp (del_experimental d) db = (del_experimental d, Upsert m u) \<and>
               record_fields m = del_experimental d"
  using assms
  by (cases "get_runnertype_by_name env db (name d)")
     (auto simp: prepare_def to_model_def RunnerTypeAPI_def Let_def)

lemma two_calls_on_store:
  assumes valid: "\<forall>d \<in> set C. v (del_experimental d) = None"
  shows "raised (register_runner_types (store_env v no_fault no_fault) True C s) = None \<and>
         catalog_after (register_runner_types (store_env v no_fault no_fault) True C s) =
           map del_experimental C \<and>
         raised (register_then (store_env v no_fault no_fault) True exp C s) = None \<and>
         logged (register_then (store_env v no_fault no_fault) True exp C s) =
           map (\<lambda>d. Updated
                  \<lparr>record_id =
                     first_named (name d)
                       (db_after (register_runner_types (store_env v no_fault no_fault) True C s)),
                   record_fields = del_experimental d\<rparr>) C \<and>
         (\<forall>d \<in> set C.
            \<exists>i. first_named (name d)
                   (db_after (register_then (store_env v no_fault no_fault) True exp C s)) =
                 Some i) \<and>
         db_after (register_then (store_env v no_fault no_fault) True exp C s) =
           db_after (register_runner_types (store_env v no_fault no_fault) True C s)"
proof -
  let ?E = "store_env v no_fault no_fault"
  let ?C' = "map del_experimental C"
  let ?r1 = "register_loop ?E True C s"
  let ?s1 = "fold (\<lambda>f s. store_write s f) ?C' s"
  let ?r2 = "register_loop ?E exp ?C' ?s1"
  have ok1: "\<forall>d \<in> set C. \<not> (runner_experimental d \<and> \<not> True) \<longrightarrow> v (del_experimental d) = None"
    using valid by simp
  from run_without_failure [OF ok1, of s]
  have r1: "raised ?r1 = None" and s1: "db_after ?r1 = ?s1" by (simp_all add: in_scope_True)
  from r1 have c1: "catalog_after ?r1 = ?C'"
    using catalog_after_complete [of ?E True C s] by (simp add: left_in_catalog_def)
  have then_eq: "register_then ?E True exp C s = ?r2"
    by (simp add: register_then_def register_runner_types_def Let_def c1 s1)
  have present: "first_named (name d) ?s1 \<noteq> None" if "d \<in> set C" for d
  proof -
    from that have "del_experimental d \<in> set ?C'" by simp
    from fold_write_names_present [OF this, of s] show ?thesis by simp
  qed
  have ok2: "\<forall>d \<in> set ?C'. \<not> (runner_experimental d \<and> \<not> exp) \<longrightarrow> v (del_experimental d) = None"
    using valid by auto
  from run_without_failure [OF ok2, of ?s1]
  have r2: "raised ?r2 = None" and "db_after ?r2 = fold (\<lambda>f s. store_write s f) ?C' ?s1"
    by (simp_all add: in_scope_del)
  then have s2: "db_after ?r2 = ?s1" by (simp add: fold_write_idem)
  have known: "\<forall>d \<in> set ?C'. \<not> (runner_experimental d \<and> \<not> exp) \<longrightarrow>
             v (del_experimental d) = None \<and> first_named (name d) ?s1 \<noteq> None"
    using valid present by auto
  from run_on_known_names [OF known, of ?s1]
  have l2: "logged ?r2 =
      map (\<lambda>d. Updated \<lparr>record_id = first_named (name d) ?s1,
                        record_fields = del_experimental d\<rparr>) C"
    by (simp add: comp_def)
  have p2: "\<forall>d \<in> set C. \<exists>i. first_named (name d) ?s1 = Some i"
    using present by auto
  from r1 c1 r2 l2 p2 s2 show ?thesis
    by (simp add: then_eq) (simp add: register_runner_types_def s1 c1)
qed


section \<open>Claims\<close>

subsection \<open>C1: which failures are isolated\<close>

text \<open>
  Against C1 as stated: with a catalog of three definitions whose second fails
  validation, the validation error leaves the function. Only the first definition has
  an outcome and is saved; the third is never looked at.
\<close>

theorem C1_counterexample:
  "raised (register_runner_types env_plain False catalog_a_invalid_c []) =
     Some (ValidationError ''runner_module is empty'') \<and>
   logged (register_runner_types env_plain False catalog_a_invalid_c []) =
     [Created \<lparr>record_id = Some 0, record_fields = example_runner ''a''\<rparr>] \<and>
   db_after (register_runner_types env_plain False catalog_a_invalid_c []) =
     [example_runner ''a'']"
  by (simp add: catalog_a_invalid_c_def env_plain_def run_defs)

text \<open>
  C1, amended. The one handler that catches broadly is the one around
  \<^verbatim>\<open>add_or_update\<close>. So: if no lookup raises anything but the not-found error, every
  definition in scope passes validation, and \<^verbatim>\<open>add_or_update\<close> raises nothing outside
  \<^verbatim>\<open>Exception\<close>, then no exception leaves \<^verbatim>\<open>register_runner_types\<close> and every
  definition of the catalog has an outcome. A definition whose save raises is logged as
  \<open>Failed\<close>, and the rest of the catalog is processed from the database the failed
  save left.
\<close>

theorem C1_only_persistence_failures_are_isolated:
  assumes lookup:
    "\<forall>db n e. get_runnertype_by_name env db n = Inl e \<longrightarrow> e = StackStormDBObjectNotFoundError"
  and valid:
    "\<forall>d \<in> set C. \<not> (runner_experimental d \<and> \<not> exp) \<longrightarrow>
       validate env (RunnerTypeAPI (del_experimental d)) = None"
  and persist: "\<forall>db m e db'. add_or_update env db m = (Inl e, db') \<longrightarrow> is_Exception e"
  shows "raised (register_runner_types env exp C db) = None \<and>
         length (logged (register_runner_types env exp C db)) = length C \<and>
         (\<forall>d rest db0 d' m u e db'.
            prepare env exp d db0 = (d', Upsert m u) \<and> add_or_update env db0 m = (Inl e, db') \<longrightarrow>
            logged (register_runner_types env exp (d # rest) db0) =
              Failed (name d) # logged (register_runner_types env exp rest db') \<and>
            raised (register_runner_types env exp (d # rest) db0) =
              raised (register_runner_types env exp rest db'))"
proof -
  have "raised (register_loop env exp C db) = None"
  proof (rule register_loop_completes)
    fix db n e assume "get_runnertype_by_name env db n = Inl e"
    with lookup show "e = StackStormDBObjectNotFoundError" by blast
  next
    fix d assume "d \<in> set C" "\<not> (runner_experimental d \<and> \<not> exp)"
    with valid show "validate env (RunnerTypeAPI (del_experimental d)) = None" by blast
  next
    fix db m e db' assume "add_or_update env db m = (Inl e, db')"
    with persist show "is_Exception e" by blast
  qed
  then have a: "raised (register_runner_types env exp C db) = None \<and>
         length (logged (register_runner_types env exp C db)) = length C"
    using raised_iff_length [of env exp C db] by (simp add: register_runner_types_def)
  have b: "logged (register_runner_types env exp (d # rest) db0) =
              Failed (name d) # logged (register_runner_types env exp rest db') \<and>
            raised (register_runner_types env exp (d # rest) db0) =
              raised (register_runner_types env exp rest db')"
    if "prepare env exp d db0 = (d', Upsert m u)" "add_or_update env db0 m = (Inl e, db')"
    for d rest db0 d' m u e db'
  proof -
    have "is_Exception e" using persist that(2) by blast
    then show ?thesis
      using register_loop_Cons_Failed [OF that(1) that(2), of rest]
      by (simp add: register_runner_types_def Let_def)
  qed
  from a b show ?thesis by blast
qed

text \<open>The theorem at the catalog \<open>a, b, c\<close> on an empty store whose save of \<open>b\<close>
  fails: three outcomes, the second \<open>Failed\<close>, and \<open>c\<close> is saved.\<close>

theorem C1_witness:
  "raised (register_runner_types env_b_unsaved False catalog_abc []) = None \<and>
   length (logged (register_runner_types env_b_unsaved False catalog_abc [])) = length catalog_abc \<and>
   logged (register_runner_types env_b_unsaved False
             (example_runner ''b'' # [example_runner ''c'']) [example_runner ''a'']) =
     Failed ''b'' # logged (register_runner_types env_b_unsaved False [example_runner ''c'']
                              [example_runner ''a'']) \<and>
   logged (register_runner_types env_b_unsaved False catalog_abc []) =
     [Created \<lparr>record_id = Some 0, record_fields = example_runner ''a''\<rparr>,
      Failed ''b'',
      Created \<lparr>record_id = Some 1, record_fields = example_runner ''c''\<rparr>] \<and>
   db_after (register_runner_types env_b_unsaved False catalog_abc []) =
     [example_runner ''a'', example_runner ''c'']"
proof -
  have lookup: "\<forall>db n e. get_runnertype_by_name env_b_unsaved db n = Inl e \<longrightarrow>
                  e = StackStormDBObjectNotFoundError"
    by (simp add: env_b_unsaved_def store_env_def no_fault_def find_by_name_def
             split: option.splits)
  have valid: "\<forall>d \<in> set catalog_abc. \<not> (runner_experimental d \<and> \<not> False) \<longrightarrow>
                 validate env_b_unsaved (RunnerTypeAPI (del_experimental d)) = None"
    by (simp add: catalog_abc_def env_b_unsaved_def store_env_def RunnerTypeAPI_def)
  have persist: "\<forall>db m e db'. add_or_update env_b_unsaved db m = (Inl e, db') \<longrightarrow> is_Exception e"
    by (auto simp: env_b_unsaved_def store_env_def fault_on_def upsert_def
             split: option.splits if_splits)
  note main = C1_only_persistence_failures_are_isolated [OF lookup valid persist, of "[]"]
  have p: "prepare env_b_unsaved False (example_runner ''b'') [example_runner ''a''] =
             (example_runner ''b'',
              Upsert \<lparr>record_id = None, record_fields = example_runner ''b''\<rparr> False)"
    by (simp add: env_b_unsaved_def run_defs)
  have s: "add_or_update env_b_unsaved [example_runner ''a'']
             \<lparr>record_id = None, record_fields = example_runner ''b''\<rparr> =
             (Inl (StoreError ''unavailable''), [example_runner ''a''])"
    by (simp add: env_b_unsaved_def store_env_def fault_on_def)
  have run: "logged (register_runner_types env_b_unsaved False catalog_abc []) =
     [Created \<lparr>record_id = Some 0, record_fields = example_runner ''a''\<rparr>,
      Failed ''b'',
      Created \<lparr>record_id = Some 1, record_fields = example_runner ''c''\<rparr>] \<and>
   db_after (register_runner_types env_b_unsaved False catalog_abc []) =
     [example_runner ''a'', example_runner ''c'']"
    by (simp add: catalog_abc_def env_b_unsaved_def run_defs)
  from main p s have
    "raised (register_runner_types env_b_unsaved False catalog_abc []) = None"
    "length (logged (register_runner_types env_b_unsaved False catalog_abc [])) = length catalog_abc"
    "logged (register_runner_types env_b_unsaved False
             (example_runner ''b'' # [example_runner ''c'']) [example_runner ''a'']) =
     Failed ''b'' # logged (register_runner_types env_b_unsaved False [example_runner ''c'']
                              [example_runner ''a''])"
    by (blast, blast, metis example_runner_simps(1))
  with run show ?thesis by blast
qed

subsection \<open>C2: the experimental filter\<close>

text \<open>
  Against C2 as stated: with \<^verbatim>\<open>experimental=True\<close> an experimental definition need not
  end as created or updated. When its save fails the outcome is \<open>Failed\<close>, and when it
  does not pass validation the error leaves the function and there is no outcome.
\<close>

theorem C2_counterexample:
  "logged (register_runner_types env_e_unsaved True [experimental_runner ''e''] []) =
     [Failed ''e''] \<and>
   db_after (register_runner_types env_e_unsaved True [experimental_runner ''e''] []) = [] \<and>
   logged (register_runner_types env_plain True [invalid_experimental_runner ''e''] []) = [] \<and>
   raised (register_runner_types env_plain True [invalid_experimental_runner ''e''] []) =
     Some (ValidationError ''runner_module is empty'')"
  by (simp add: env_e_unsaved_def env_plain_def run_defs)

text \<open>
  C2, amended. For a definition whose \<^verbatim>\<open>experimental\<close> key is true: with
  \<^verbatim>\<open>experimental=False\<close> the outcome is \<open>Skipped\<close>, whatever the collaborators are, and
  the definition and the database are left as they were. Whenever a model is handed to
  \<^verbatim>\<open>add_or_update\<close>, neither it nor the catalog entry has an \<^verbatim>\<open>experimental\<close> key.
  With \<^verbatim>\<open>experimental=True\<close>, if the lookup finds the record or reports it not found
  and the validation passes, a model is handed to \<^verbatim>\<open>add_or_update\<close>, and when that
  call succeeds the outcome is \<open>Updated\<close> or \<open>Created\<close> with the object it returned.
\<close>

theorem C2_experimental_filter:
  assumes "runner_experimental d"
  shows "register_one env False d db = (d, db, Inr (Skipped (name d))) \<and>
         (\<forall>d' m u. prepare env exp d db = (d', Upsert m u) \<longrightarrow>
            experimental (record_fields m) = None \<and> experimental d' = None) \<and>
         ((\<forall>e. get_runnertype_by_name env db (name d) = Inl e \<longrightarrow>
                e = StackStormDBObjectNotFoundError) \<and>
          validate env (RunnerTypeAPI (del_experimental d)) = None \<longrightarrow>
            (\<exists>m u. prepare env True d db = (del_experimental d, Upsert m u) \<and>
               (\<forall>saved db'. add_or_update env db m = (Inr saved, db') \<longrightarrow>
                  register_one env True d db =
                    (del_experimental d, db',
                     Inr (if u then Updated saved else Created saved)))))"
proof -
  have a: "register_one env False d db = (d, db, Inr (Skipped (name d)))"
    using assms by (simp add: register_one_skipped)
  have b: "experimental (record_fields m) = None \<and> experimental d' = None"
    if "prepare env exp d db = (d', Upsert m u)" for d' m u
    using that
    by (auto simp: prepare_def to_model_def RunnerTypeAPI_def Let_def
             split: if_splits sum.splits option.splits)
  have c: "\<exists>m u. prepare env True d db = (del_experimental d, Upsert m u) \<and>
               (\<forall>saved db'. add_or_update env db m = (Inr saved, db') \<longrightarrow>
                  register_one env True d db =
                    (del_experimental d, db',
                     Inr (if u then Updated saved else Created saved)))"
    if l: "\<forall>e. get_runnertype_by_name env db (name d) = Inl e \<longrightarrow>
                e = StackStormDBObjectNotFoundError"
      and v: "validate env (RunnerTypeAPI (del_experimental d)) = None"
  proof -
    from l v obtain m u where p: "prepare env True d db = (del_experimental d, Upsert m u)"
      by (cases "get_runnertype_by_name env db (name d)") (auto simp: prepare_def Let_def)
    then have "register_one env True d db =
                 (del_experimental d, db', Inr (if u then Updated saved else Created saved))"
      if "add_or_update env db m = (Inr saved, db')" for saved db'
      using that by (simp add: register_one_def)
    with p show ?thesis by blast
  qed
  from a b c show ?thesis by blast
qed

text \<open>The theorem at an experimental runner \<open>e\<close> on an empty store: skipped without the
  flag, created without its marker with it.\<close>

theorem C2_witness:
  "register_one env_plain False (experimental_runner ''e'') [] =
     (experimental_runner ''e'', [], Inr (Skipped ''e'')) \<and>
   experimental (record_fields \<lparr>record_id = None, record_fields = example_runner ''e''\<rparr>) = None \<and>
   register_one env_plain True (experimental_runner ''e'') [] =
     (example_runner ''e'', [example_runner ''e''],
      Inr (Created \<lparr>record_id = Some 0, record_fields = example_runner ''e''\<rparr>))"
proof -
  have e: "runner_experimental (experimental_runner ''e'')" by simp
  note main = C2_experimental_filter [OF e, of env_plain "[]" True]
  have p: "prepare env_plain True (experimental_runner ''e'') [] =
             (example_runner ''e'',
              Upsert \<lparr>record_id = None, record_fields = example_runner ''e''\<rparr> False)"
    by (simp add: env_plain_def run_defs)
  have l: "\<forall>e. get_runnertype_by_name env_plain [] (name (experimental_runner ''e'')) = Inl e \<longrightarrow>
                e = StackStormDBObjectNotFoundError"
    by (simp add: env_plain_def store_env_def no_fault_def find_by_name_def)
  have v: "validate env_plain (RunnerTypeAPI (del_experimental (experimental_runner ''e''))) = None"
    by (simp add: env_plain_def store_env_def RunnerTypeAPI_def)
  have s: "add_or_update env_plain [] \<lparr>record_id = None, record_fields = example_runner ''e''\<rparr> =
             (Inr \<lparr>record_id = Some 0, record_fields = example_runner ''e''\<rparr>,
              [example_runner ''e''])"
    by (simp add: env_plain_def store_env_def no_fault_def upsert_def)
  from main have 1: "register_one env_plain False (experimental_runner ''e'') [] =
     (experimental_runner ''e'', [], Inr (Skipped ''e''))"
    by simp
  from main p have 2:
    "experimental (record_fields \<lparr>record_id = None, record_fields = example_runner ''e''\<rparr>) = None"
    by blast
  from main l v obtain m u where
    m: "prepare env_plain True (experimental_runner ''e'') [] =
          (del_experimental (experimental_runner ''e''), Upsert m u)"
    and r: "\<forall>saved db'. add_or_update env_plain [] m = (Inr saved, db') \<longrightarrow>
              register_one env_plain True (experimental_runner ''e'') [] =
                (del_experimental (experimental_runner ''e''), db',
                 Inr (if u then Updated saved else Created saved))"
    by blast
  from m p have "m = \<lparr>record_id = None, record_fields = example_runner ''e''\<rparr>" "\<not> u"
    by simp_all
  with r s have 3: "register_one env_plain True (experimental_runner ''e'') [] =
     (example_runner ''e'', [example_runner ''e''],
      Inr (Created \<lparr>record_id = Some 0, record_fields = example_runner ''e''\<rparr>))"
    by simp
  from 1 2 3 show ?thesis by blast
qed

subsection \<open>C3: the identity of an existing record\<close>

text \<open>
  C3. For any collaborators: when the lookup by name finds a record and the definition
  is in scope and valid, the model handed to \<^verbatim>\<open>add_or_update\<close> is the record built from
  the definition with the identity of the record found copied onto it, and the call is
  an update. On the store modelled from the spec the record of that name is then
  replaced in place and is found again under the same identity. Over a whole call,
  whatever the catalog and whatever fails, a name that is found under an identity before
  the call is found under the same identity after it.
\<close>

theorem C3_identity_is_carried_forward:
  "(get_runnertype_by_name env db (name d) = Inr found \<and>
    \<not> (runner_experimental d \<and> \<not> exp) \<and>
    validate env (RunnerTypeAPI (del_experimental d)) = None \<longrightarrow>
      prepare env exp d db =
        (del_experimental d,
         Upsert \<lparr>record_id = record_id found, record_fields = del_experimental d\<rparr> True)) \<and>
   (first_named (name d) s = Some I \<and> \<not> (runner_experimental d \<and> \<not> exp) \<and>
    v (del_experimental d) = None \<longrightarrow>
      register_one (store_env v no_fault no_fault) exp d s =
        (del_experimental d, s[I := del_experimental d],
         Inr (Updated \<lparr>record_id = Some I, record_fields = del_experimental d\<rparr>)) \<and>
      find_by_name (s[I := del_experimental d]) (name d) =
        Inr \<lparr>record_id = Some I, record_fields = del_experimental d\<rparr>) \<and>
   (first_named N s = Some I \<longrightarrow>
      first_named N (db_after (register_runner_types (store_env v lf pf) exp C s)) = Some I)"
proof -
  have a: "prepare env exp d db =
        (del_experimental d,
         Upsert \<lparr>record_id = record_id found, record_fields = del_experimental d\<rparr> True)"
    if "get_runnertype_by_name env db (name d) = Inr found"
       "\<not> (runner_experimental d \<and> \<not> exp)"
       "validate env (RunnerTypeAPI (del_experimental d)) = None"
    using that by (auto simp: prepare_def to_model_def RunnerTypeAPI_def Let_def)
  have b: "register_one (store_env v no_fault no_fault) exp d s =
        (del_experimental d, s[I := del_experimental d],
         Inr (Updated \<lparr>record_id = Some I, record_fields = del_experimental d\<rparr>)) \<and>
      find_by_name (s[I := del_experimental d]) (name d) =
        Inr \<lparr>record_id = Some I, record_fields = del_experimental d\<rparr>"
    if f: "first_named (name d) s = Some I" and i: "\<not> (runner_experimental d \<and> \<not> exp)"
      and v: "v (del_experimental d) = None"
  proof -
    from f have "first_named (name d) (s[I := del_experimental d]) = Some I" "I < length s"
      using first_named_update [of "del_experimental d" s I "name d"]
      by (simp_all add: first_named_Some)
    then have "find_by_name (s[I := del_experimental d]) (name d) =
        Inr \<lparr>record_id = Some I, record_fields = del_experimental d\<rparr>"
      by (simp add: find_by_name_def)
    with f v show ?thesis
      by (simp add: register_one_store_env [OF i] no_fault_def)
  qed
  have c: "first_named N (db_after (register_loop (store_env v lf pf) exp C s)) = Some I"
    if "first_named N s = Some I"
    using that
  proof (rule register_loop_invariant [where P = "\<lambda>s. first_named N s = Some I"])
    fix d db d' db' res
    assume "first_named N db = Some I"
      and "register_one (store_env v lf pf) exp d db = (d', db', res)"
    then show "first_named N db' = Some I"
      using register_one_store_names [of v lf pf exp d db d' db' res]
      by (blast intro: first_named_extend)
  qed
  from a b c show ?thesis by (simp add: register_runner_types_def)
qed

text \<open>The theorem at a store that holds \<open>a\<close> under identity 1, with other contents
  than the definition \<open>a\<close> of the catalog.\<close>

theorem C3_witness:
  "prepare env_plain False (example_runner ''a'') store_x_a =
     (example_runner ''a'',
      Upsert \<lparr>record_id = Some 1, record_fields = example_runner ''a''\<rparr> True) \<and>
   register_one env_plain False (example_runner ''a'') store_x_a =
     (example_runner ''a'', [example_runner ''x'', example_runner ''a''],
      Inr (Updated \<lparr>record_id = Some 1, record_fields = example_runner ''a''\<rparr>)) \<and>
   find_by_name [example_runner ''x'', example_runner ''a''] ''a'' =
     Inr \<lparr>record_id = Some 1, record_fields = example_runner ''a''\<rparr> \<and>
   first_named ''a'' (db_after (register_runner_types env_plain False catalog_abc store_x_a)) =
     Some 1"
proof -
  note main = C3_identity_is_carried_forward
    [of env_plain store_x_a "example_runner ''a''"
        "\<lparr>record_id = Some 1, record_fields = invalid_runner ''a''\<rparr>" False
        store_x_a 1 validate_spec "''a''" no_fault no_fault catalog_abc,
     folded env_plain_def]
  have g: "get_runnertype_by_name env_plain store_x_a (name (example_runner ''a'')) =
             Inr \<lparr>record_id = Some 1, record_fields = invalid_runner ''a''\<rparr>"
    by (simp add: env_plain_def store_env_def no_fault_def find_by_name_def store_x_a_def)
  have v: "validate env_plain (RunnerTypeAPI (del_experimental (example_runner ''a''))) = None"
    by (simp add: env_plain_def store_env_def RunnerTypeAPI_def)
  have f: "first_named (name (example_runner ''a'')) store_x_a = Some 1"
          "first_named ''a'' store_x_a = Some 1"
    by (simp_all add: store_x_a_def)
  have u: "store_x_a[1 := example_runner ''a''] = [example_runner ''x'', example_runner ''a'']"
    by (simp add: store_x_a_def)
  from main g v have 1: "prepare env_plain False (example_runner ''a'') store_x_a =
     (example_runner ''a'',
      Upsert \<lparr>record_id = Some 1, record_fields = example_runner ''a''\<rparr> True)"
    by simp
  from main f(1) have "register_one env_plain False (example_runner ''a'') store_x_a =
     (example_runner ''a'', store_x_a[1 := example_runner ''a''],
      Inr (Updated \<lparr>record_id = Some 1, record_fields = example_runner ''a''\<rparr>)) \<and>
   find_by_name (store_x_a[1 := example_runner ''a'']) ''a'' =
     Inr \<lparr>record_id = Some 1, record_fields = example_runner ''a''\<rparr>"
    by simp
  then have 2: "register_one env_plain False (example_runner ''a'') store_x_a =
     (example_runner ''a'', [example_runner ''x'', example_runner ''a''],
      Inr (Updated \<lparr>record_id = Some 1, record_fields = example_runner ''a''\<rparr>)) \<and>
   find_by_name [example_runner ''x'', example_runner ''a''] ''a'' =
     Inr \<lparr>record_id = Some 1, record_fields = example_runner ''a''\<rparr>"
    by (simp only: u)
  from main f(2) have 3:
    "first_named ''a'' (db_after (register_runner_types env_plain False catalog_abc store_x_a)) =
       Some 1"
    by blast
  from 1 2 3 show ?thesis by blast
qed

subsection \<open>C4: idempotence\<close>

text \<open>
  Against C4 as stated: a catalog whose only definition does not pass validation. The
  second call, like the first, ends with the validation error; the definition is not
  skipped and has no \<open>Updated\<close> outcome.
\<close>

theorem C4_counterexample:
  "logged (register_again env_plain False [invalid_runner ''b''] []) = [] \<and>
   raised (register_again env_plain False [invalid_runner ''b''] []) =
     Some (ValidationError ''runner_module is empty'')"
  by (simp add: register_again_def env_plain_def run_defs)

text \<open>
  C4, amended, on the store modelled from the spec, without failures of the store. If
  every definition in scope passes validation, then for every catalog, store and flag
  both calls end without an exception; the second call logs \<open>Skipped\<close> for the
  definitions the flag excludes and \<open>Updated\<close> for every other one, with the identity
  under which its name is found after the first call; and the store and the catalog
  after the second call are those after the first.
\<close>

theorem C4_idempotence:
  assumes "\<forall>d \<in> set C. \<not> (runner_experimental d \<and> \<not> exp) \<longrightarrow> v (del_experimental d) = None"
  shows "raised (register_runner_types (store_env v no_fault no_fault) exp C s) = None \<and>
         raised (register_again (store_env v no_fault no_fault) exp C s) = None \<and>
         logged (register_again (store_env v no_fault no_fault) exp C s) =
           map (\<lambda>d. if runner_experimental d \<and> \<not> exp then Skipped (name d)
                    else Updated
                      \<lparr>record_id =
                         first_named (name d)
                           (db_after (register_runner_types (store_env v no_fault no_fault) exp C s)),
                       record_fields = del_experimental d\<rparr>) C \<and>
         (\<forall>d \<in> set C. \<not> (runner_experimental d \<and> \<not> exp) \<longrightarrow>
            first_named (name d)
              (db_after (register_runner_types (store_env v no_fault no_fault) exp C s)) \<noteq> None) \<and>
         db_after (register_again (store_env v no_fault no_fault) exp C s) =
           db_after (register_runner_types (store_env v no_fault no_fault) exp C s) \<and>
         catalog_after (register_again (store_env v no_fault no_fault) exp C s) =
           catalog_after (register_runner_types (store_env v no_fault no_fault) exp C s)"
proof -
  let ?E = "store_env v no_fault no_fault"
  let ?W = "in_scope exp C"
  let ?C' = "map (left_in_catalog exp) C"
  let ?r1 = "register_loop ?E exp C s"
  let ?s1 = "fold (\<lambda>f s. store_write s f) ?W s"
  let ?r2 = "register_loop ?E exp ?C' ?s1"
  from run_without_failure [OF assms, of s]
  have r1: "raised ?r1 = None" and s1: "db_after ?r1 = ?s1" by simp_all
  from r1 have c1: "catalog_after ?r1 = ?C'" by (rule catalog_after_complete)
  have again: "register_again ?E exp C s = ?r2"
    by (simp add: register_again_def register_runner_types_def Let_def c1 s1)
  have ok': "\<forall>d \<in> set ?C'. \<not> (runner_experimental d \<and> \<not> exp) \<longrightarrow> v (del_experimental d) = None"
    using assms by (rule valid_in_scope_left [where P = "\<lambda>n f. v f = None"])
  from run_without_failure [OF ok', of ?s1]
  have r2: "raised ?r2 = None" and "db_after ?r2 = fold (\<lambda>f s. store_write s f) ?W ?s1"
    by (simp_all add: in_scope_left)
  then have s2: "db_after ?r2 = ?s1" by (simp add: fold_write_idem)
  from r2 have c2: "catalog_after ?r2 = ?C'"
    using catalog_after_complete [of ?E exp ?C' ?s1]
    by (simp add: comp_def left_in_catalog_idem)
  have present: "first_named (name d) ?s1 \<noteq> None"
    if "d \<in> set C" "\<not> (runner_experimental d \<and> \<not> exp)" for d
  proof -
    from that have "del_experimental d \<in> set ?W" by (auto simp: in_scope_def)
    from fold_write_names_present [OF this, of s] show ?thesis by simp
  qed
  let ?F = "\<lambda>d. if runner_experimental d \<and> \<not> exp then Skipped (name d)
                 else Updated \<lparr>record_id = first_named (name d) ?s1,
                               record_fields = del_experimental d\<rparr>"
  have "\<forall>d \<in> set C. \<not> (runner_experimental d \<and> \<not> exp) \<longrightarrow>
             v (del_experimental d) = None \<and> first_named (name d) ?s1 \<noteq> None"
    using assms present by blast
  then have known: "\<forall>d \<in> set ?C'. \<not> (runner_experimental d \<and> \<not> exp) \<longrightarrow>
             v (del_experimental d) = None \<and> first_named (name d) ?s1 \<noteq> None"
    by (rule valid_in_scope_left [where P = "\<lambda>n f. v f = None \<and> first_named n ?s1 \<noteq> None"])
  have F: "?F (left_in_catalog exp d) = ?F d" for d
  proof (rule left_in_catalog_cases [where d = d and exp = exp])
    assume "runner_experimental d \<and> \<not> exp" "left_in_catalog exp d = d"
    then show ?thesis by simp
  next
    assume s: "\<not> (runner_experimental d \<and> \<not> exp)"
      and "left_in_catalog exp d = del_experimental d"
    then show ?thesis by (simp add: s)
  qed
  from run_on_known_names [OF known, of ?s1]
  have "logged ?r2 = map ?F ?C'" by simp
  also have "\<dots> = map ?F C" by (simp only: map_map comp_def F)
  finally have l2: "logged ?r2 = map ?F C" .
  from r1 r2 l2 present s2 c2 show ?thesis
    by (simp add: again) (simp add: register_runner_types_def s1 c1)
qed

text \<open>The theorem at a catalog of a plain and an experimental runner, on an empty
  store and without the flag.\<close>

theorem C4_witness:
  "raised (register_runner_types env_plain False catalog_a_e []) = None \<and>
   raised (register_again env_plain False catalog_a_e []) = None \<and>
   logged (register_again env_plain False catalog_a_e []) =
     [Updated \<lparr>record_id = Some 0, record_fields = example_runner ''a''\<rparr>, Skipped ''e''] \<and>
   db_after (register_again env_plain False catalog_a_e []) = [example_runner ''a''] \<and>
   catalog_after (register_again env_plain False catalog_a_e []) = catalog_a_e"
proof -
  have valid: "\<forall>d \<in> set catalog_a_e. \<not> (runner_experimental d \<and> \<not> False) \<longrightarrow>
                 validate_spec (del_experimental d) = None"
    by (simp add: catalog_a_e_def)
  note main = C4_idempotence [OF valid, of "[]", folded env_plain_def]
  have first: "db_after (register_runner_types env_plain False catalog_a_e []) =
                 [example_runner ''a'']"
              "catalog_after (register_runner_types env_plain False catalog_a_e []) = catalog_a_e"
    by (simp_all add: catalog_a_e_def env_plain_def run_defs)
  from main have 1: "raised (register_runner_types env_plain False catalog_a_e []) = None"
    and 2: "raised (register_again env_plain False catalog_a_e []) = None"
    by blast+
  from main have "logged (register_again env_plain False catalog_a_e []) =
           map (\<lambda>d. if runner_experimental d \<and> \<not> False then Skipped (name d)
                    else Updated
                      \<lparr>record_id =
                         first_named (name d)
                           (db_after (register_runner_types env_plain False catalog_a_e [])),
                       record_fields = del_experimental d\<rparr>) catalog_a_e"
    by blast
  then have 3: "logged (register_again env_plain False catalog_a_e []) =
     [Updated \<lparr>record_id = Some 0, record_fields = example_runner ''a''\<rparr>, Skipped ''e'']"
    by (simp add: catalog_a_e_def first [unfolded catalog_a_e_def])
  from main have "db_after (register_again env_plain False catalog_a_e []) =
                  db_after (register_runner_types env_plain False catalog_a_e [])"
    and "catalog_after (register_again env_plain False catalog_a_e []) =
         catalog_after (register_runner_types env_plain False catalog_a_e [])"
    by blast+
  then have 4: "db_after (register_again env_plain False catalog_a_e []) = [example_runner ''a'']"
    and 5: "catalog_after (register_again env_plain False catalog_a_e []) = catalog_a_e"
    by (simp_all only: first)
  from 1 2 3 4 5 show ?thesis by blast
qed

subsection \<open>C5: what a call does to the catalog\<close>

text \<open>
  Against C5 as stated: a call with \<^verbatim>\<open>experimental=True\<close>, on a store and a validator
  that accept everything, leaves a catalog that differs from \<^verbatim>\<open>RUNNER_TYPES\<close>.
\<close>

theorem C5_counterexample:
  "catalog_after (register_runner_types env_accepting True (RUNNER_TYPES example_constants) []) \<noteq>
     RUNNER_TYPES example_constants"
proof -
  let ?r = "register_loop env_accepting True (RUNNER_TYPES example_constants) []"
  have "raised ?r = None"
    unfolding env_accepting_def
  proof (rule register_loop_completes)
    show "validate (store_env accept_all no_fault no_fault)
            (RunnerTypeAPI (del_experimental d)) = None" for d
      by (simp add: store_env_def accept_all_def)
  qed (erule store_env_lookup_total store_env_persist_Exception)+
  then have "length (logged ?r) = length (RUNNER_TYPES example_constants)"
    by (simp only: raised_iff_length)
  then have "catalog_after ?r = map (left_in_catalog True) (RUNNER_TYPES example_constants)"
    by (subst catalog_after_eq) (simp only: take_all drop_all append_Nil2 le_Suc_eq, simp)
  moreover have "map experimental (map (left_in_catalog True) (RUNNER_TYPES example_constants)) =
               [None, None, None, None, None, None, None, None, None, None, None]"
    by (simp add: RUNNER_TYPES_def left_in_catalog_def)
  ultimately have "map experimental (catalog_after ?r) \<noteq>
                   map experimental (RUNNER_TYPES example_constants)"
    by (simp only: catalog_experimental) simp
  then show ?thesis
    unfolding register_runner_types_def by metis
qed

text \<open>
  C5, amended. A call changes nothing in the catalog but the \<^verbatim>\<open>experimental\<close> key:
  the entries are the same, in the same order, once that key is disregarded. Called
  with \<^verbatim>\<open>experimental=False\<close>, whatever the collaborators do, it leaves
  \<^verbatim>\<open>RUNNER_TYPES\<close> as it is written in the module unchanged.
\<close>

theorem C5_only_the_experimental_key_changes:
  "map del_experimental (catalog_after (register_runner_types env exp C db)) =
     map del_experimental C \<and>
   catalog_after (register_runner_types env False (RUNNER_TYPES c) db) = RUNNER_TYPES c"
proof -
  let ?k = "Suc (length (logged (register_loop env exp C db)))"
  have "map del_experimental (catalog_after (register_loop env exp C db)) =
          map del_experimental (take ?k C) @ map del_experimental (drop ?k C)"
    by (subst catalog_after_eq) (simp add: comp_def)
  also have "\<dots> = map del_experimental C"
    by (simp flip: map_append)
  finally have a: "map del_experimental (catalog_after (register_loop env exp C db)) =
     map del_experimental C" .
  have "\<forall>x \<in> set (map experimental (RUNNER_TYPES c)). x \<noteq> Some False"
    by (simp only: catalog_experimental) simp
  then have "\<forall>d \<in> set (RUNNER_TYPES c). experimental d \<noteq> Some False" by simp
  then have b: "catalog_after (register_loop env False (RUNNER_TYPES c) db) = RUNNER_TYPES c"
    by (rule catalog_after_False_unchanged)
  from a b show ?thesis by (simp add: register_runner_types_def)
qed

text \<open>The theorem at the failing store of C6 and at the module's catalog.\<close>

theorem C5_witness:
  "map del_experimental
     (catalog_after (register_runner_types env_b_unreadable True catalog_abc [])) =
     catalog_abc \<and>
   catalog_after (register_runner_types env_b_unreadable False
                    (RUNNER_TYPES example_constants) []) = RUNNER_TYPES example_constants"
  using C5_only_the_experimental_key_changes
          [of env_b_unreadable True catalog_abc "[]" example_constants]
  by (simp add: catalog_abc_def)

subsection \<open>C6: a lookup failure other than not-found\<close>

text \<open>
  Against C6 as stated: the lookup of the first of two definitions fails with a
  connection error. The error leaves the function; nothing is logged and the second
  definition is not saved.
\<close>

theorem C6_counterexample:
  "raised (register_runner_types env_a_unreadable False
             [example_runner ''a'', example_runner ''c''] []) =
     Some (OtherException ''connection refused'') \<and>
   logged (register_runner_types env_a_unreadable False
             [example_runner ''a'', example_runner ''c''] []) = [] \<and>
   db_after (register_runner_types env_a_unreadable False
               [example_runner ''a'', example_runner ''c''] []) = []"
  by (simp add: env_a_unreadable_def run_defs)

text \<open>
  C6, amended. The first \<^verbatim>\<open>try\<close> catches \<^verbatim>\<open>StackStormDBObjectNotFoundError\<close> only.
  If the definitions before \<open>d\<close> are processed without an exception leaving, \<open>d\<close> is
  in scope and its lookup raises any other error \<open>e\<close>, then \<open>e\<close> leaves
  \<^verbatim>\<open>register_runner_types\<close>: the outcomes are those of the definitions before \<open>d\<close>,
  none is logged for \<open>d\<close>, the database is as they left it, and the definitions after
  \<open>d\<close> are untouched. The \<^verbatim>\<open>experimental\<close> key of \<open>d\<close> has already been deleted.
\<close>

theorem C6_lookup_failure_escapes:
  assumes "raised (register_runner_types env exp pre db) = None"
      and "\<not> (runner_experimental d \<and> \<not> exp)"
      and "get_runnertype_by_name env (db_after (register_runner_types env exp pre db)) (name d) =
             Inl e"
      and "e \<noteq> StackStormDBObjectNotFoundError"
  shows "register_runner_types env exp (pre @ d # rest) db =
           \<lparr>catalog_after =
              catalog_after (register_runner_types env exp pre db) @ del_experimental d # rest,
            db_after = db_after (register_runner_types env exp pre db),
            logged = logged (register_runner_types env exp pre db),
            raised = Some e\<rparr>"
proof -
  let ?r = "register_loop env exp pre db"
  have "register_one env exp d (db_after ?r) = (del_experimental d, db_after ?r, Inl e)"
    using assms by (intro register_one_lookup_raises) (simp_all add: register_runner_types_def)
  then have "register_loop env exp (d # rest) (db_after ?r) =
      \<lparr>catalog_after = del_experimental d # rest, db_after = db_after ?r, logged = [],
       raised = Some e\<rparr>"
    by simp
  then show ?thesis
    using assms(1) by (simp add: register_runner_types_def register_loop_append Let_def)
qed

text \<open>The theorem at the catalog \<open>a, b, c\<close> on an empty store that cannot look \<open>b\<close>
  up: \<open>a\<close> is created, then the error leaves.\<close>

theorem C6_witness:
  "register_runner_types env_b_unreadable False
     ([example_runner ''a''] @ example_runner ''b'' # [example_runner ''c'']) [] =
     \<lparr>catalog_after = [example_runner ''a'', example_runner ''b'', example_runner ''c''],
      db_after = [example_runner ''a''],
      logged = [Created \<lparr>record_id = Some 0, record_fields = example_runner ''a''\<rparr>],
      raised = Some (OtherException ''connection refused'')\<rparr>"
proof -
  have pre: "register_runner_types env_b_unreadable False [example_runner ''a''] [] =
     \<lparr>catalog_after = [example_runner ''a''], db_after = [example_runner ''a''],
      logged = [Created \<lparr>record_id = Some 0, record_fields = example_runner ''a''\<rparr>],
      raised = None\<rparr>"
    by (simp add: env_b_unreadable_def run_defs)
  have h1: "raised (register_runner_types env_b_unreadable False [example_runner ''a''] []) = None"
    by (simp add: pre)
  have h2: "\<not> (runner_experimental (example_runner ''b'') \<and> \<not> False)" by simp
  have h3: "get_runnertype_by_name env_b_unreadable
              (db_after (register_runner_types env_b_unreadable False [example_runner ''a''] []))
              (name (example_runner ''b'')) = Inl (OtherException ''connection refused'')"
    by (simp add: pre) (simp add: env_b_unreadable_def store_env_def fault_on_def)
  have h4: "OtherException ''connection refused'' \<noteq> StackStormDBObjectNotFoundError" by simp
  show ?thesis
    using C6_lookup_failure_escapes [OF h1 h2 h3 h4, of "[example_runner ''c'']"]
    by (simp add: pre)
qed

subsection \<open>C7: a required parameter with a default\<close>

text \<open>
  Against C7 as stated, with the validation modelled from the spec: the catalog's own
  \<open>run-windows-cmd\<close> has a parameter that is required and has a default, and
  registering the catalog with \<^verbatim>\<open>experimental=True\<close> on an empty store does not give
  that definition the outcome \<open>Failed\<close>. The nine definitions before it are created,
  then the validation error leaves the function.
\<close>

theorem C7_counterexample:
  "has_required_with_default (run_windows_cmd example_constants) \<and>
   raised (register_runner_types env_plain True (RUNNER_TYPES example_constants) []) =
     Some (ValidationError ''required parameter with a default'') \<and>
   logged (register_runner_types env_plain True (RUNNER_TYPES example_constants) []) =
     [Created \<lparr>record_id = Some 0, record_fields = run_local example_constants\<rparr>,
      Created \<lparr>record_id = Some 1, record_fields = run_local_script example_constants\<rparr>,
      Created \<lparr>record_id = Some 2, record_fields = run_remote example_constants\<rparr>,
      Created \<lparr>record_id = Some 3, record_fields = run_remote_script example_constants\<rparr>,
      Created \<lparr>record_id = Some 4, record_fields = http_runner example_constants\<rparr>,
      Created \<lparr>record_id = Some 5, record_fields = mistral_v1 example_constants\<rparr>,
      Created \<lparr>record_id = Some 6, record_fields = mistral_v2 example_constants\<rparr>,
      Created \<lparr>record_id = Some 7, record_fields = action_chain example_constants\<rparr>,
      Created \<lparr>record_id = Some 8, record_fields = run_python example_constants\<rparr>]"
  by (simp add: register_runner_types_def RUNNER_TYPES_def env_plain_def
        register_loop_Cons_fields register_one_store_env runner_experimental_def
        validate_spec_del no_fault_def catalog_windows_violate
      del: register_loop.simps(2))

text \<open>
  C7, amended. A definition with a parameter that is required and has a default fails
  the validation modelled from the spec. In \<^verbatim>\<open>register_runner_types\<close> that failure is
  not turned into an outcome: when such a definition is in scope and its lookup finds
  the record or reports it not found, the validation error leaves the function, the
  database is untouched, nothing is logged for it and the definitions after it are not
  looked at. The catalog does not keep the
  rule: \<open>run-windows-cmd\<close> (\<open>username\<close>) and \<open>run-windows-script\<close> (\<open>username\<close>,
  \<open>share\<close>) are the definitions of \<^verbatim>\<open>RUNNER_TYPES\<close> with such parameters.
\<close>

theorem C7_required_with_default_fails_validation:
  "(has_required_with_default d \<longrightarrow> (\<exists>msg. validate_spec d = Some (ValidationError msg))) \<and>
   (has_required_with_default d \<and> \<not> (runner_experimental d \<and> \<not> exp) \<and>
    validate env = validate_spec \<and>
    (\<forall>e. get_runnertype_by_name env db (name d) = Inl e \<longrightarrow>
           e = StackStormDBObjectNotFoundError) \<longrightarrow>
      (\<exists>msg. register_runner_types env exp (d # rest) db =
         \<lparr>catalog_after = del_experimental d # rest, db_after = db, logged = [],
          raised = Some (ValidationError msg)\<rparr>)) \<and>
   filter has_required_with_default (RUNNER_TYPES c) =
     [run_windows_cmd c, run_windows_script c] \<and>
   map fst (filter (\<lambda>kv. required_with_default (snd kv))
              (runner_parameters (run_windows_cmd c))) = [''username''] \<and>
   map fst (filter (\<lambda>kv. required_with_default (snd kv))
              (runner_parameters (run_windows_script c))) = [''username'', ''share'']"
proof -
  have a: "\<exists>msg. validate_spec d = Some (ValidationError msg)" if "has_required_with_default d"
    using that by (simp add: validate_spec_def)
  have b: "\<exists>msg. register_runner_types env exp (d # rest) db =
         \<lparr>catalog_after = del_experimental d # rest, db_after = db, logged = [],
          raised = Some (ValidationError msg)\<rparr>"
    if h: "has_required_with_default d" and s: "\<not> (runner_experimental d \<and> \<not> exp)"
      and v: "validate env = validate_spec"
      and l: "\<forall>e. get_runnertype_by_name env db (name d) = Inl e \<longrightarrow>
                   e = StackStormDBObjectNotFoundError"
  proof -
    from a [OF h] obtain msg where
      "validate env (RunnerTypeAPI (del_experimental d)) = Some (ValidationError msg)"
      by (auto simp: v RunnerTypeAPI_def validate_spec_del)
    with s l have "prepare env exp d db = (del_experimental d, Raise (ValidationError msg))"
      by (cases "get_runnertype_by_name env db (name d)") (auto simp: prepare_def Let_def)
    then show ?thesis by (simp add: register_runner_types_def register_one_def)
  qed
  have c: "filter has_required_with_default (RUNNER_TYPES c) =
     [run_windows_cmd c, run_windows_script c]"
    by (simp add: RUNNER_TYPES_def catalog_violations catalog_windows_violate)
  from a b c catalog_violations(10,11) [of c] show ?thesis by blast
qed

text \<open>The theorem at the two Windows runners, registered with \<^verbatim>\<open>experimental=True\<close>
  on an empty store.\<close>

theorem C7_witness:
  "validate_spec (run_windows_cmd example_constants) =
     Some (ValidationError ''required parameter with a default'') \<and>
   register_runner_types env_plain True
     (run_windows_cmd example_constants # [run_windows_script example_constants]) [] =
     \<lparr>catalog_after = del_experimental (run_windows_cmd example_constants) #
                        [run_windows_script example_constants],
      db_after = [], logged = [],
      raised = Some (ValidationError ''required parameter with a default'')\<rparr> \<and>
   filter has_required_with_default (RUNNER_TYPES example_constants) =
     [run_windows_cmd example_constants, run_windows_script example_constants]"
proof -
  note main = C7_required_with_default_fails_validation
                [of "run_windows_cmd example_constants" True env_plain "[]"
                    "[run_windows_script example_constants]" example_constants]
  have h: "has_required_with_default (run_windows_cmd example_constants)"
    by (rule catalog_windows_violate)
  have s: "\<not> (runner_experimental (run_windows_cmd example_constants) \<and> \<not> True)" by simp
  have v: "validate env_plain = validate_spec" by (simp add: env_plain_def store_env_def)
  have l: "\<forall>e. get_runnertype_by_name env_plain [] (name (run_windows_cmd example_constants)) =
                  Inl e \<longrightarrow> e = StackStormDBObjectNotFoundError"
    by (simp add: env_plain_def store_env_def no_fault_def find_by_name_def)
  from main h obtain msg where
    "validate_spec (run_windows_cmd example_constants) = Some (ValidationError msg)"
    by blast
  then have 1: "validate_spec (run_windows_cmd example_constants) =
     Some (ValidationError ''required parameter with a default'')"
    by simp
  from main h s v l obtain msg' where r:
    "register_runner_types env_plain True
       (run_windows_cmd example_constants # [run_windows_script example_constants]) [] =
     \<lparr>catalog_after = del_experimental (run_windows_cmd example_constants) #
                        [run_windows_script example_constants],
      db_after = [], logged = [], raised = Some (ValidationError msg')\<rparr>"
    by blast
  have "raised (register_runner_types env_plain True
       (run_windows_cmd example_constants # [run_windows_script example_constants]) []) =
      Some (ValidationError ''required parameter with a default'')"
    unfolding env_plain_def register_runner_types_def
    by (simp add: register_loop_Cons_fields register_one_store_env validate_spec_del
          del: register_loop.simps(2))
  with r have "msg' = ''required parameter with a default''" by simp
  with r have 2: "register_runner_types env_plain True
     (run_windows_cmd example_constants # [run_windows_script example_constants]) [] =
     \<lparr>catalog_after = del_experimental (run_windows_cmd example_constants) #
                        [run_windows_script example_constants],
      db_after = [], logged = [],
      raised = Some (ValidationError ''required parameter with a default'')\<rparr>"
    by simp
  from main have 3: "filter has_required_with_default (RUNNER_TYPES example_constants) =
     [run_windows_cmd example_constants, run_windows_script example_constants]"
    by blast
  from 1 2 3 show ?thesis by blast
qed

subsection \<open>C8: one outcome per definition, in catalog order\<close>

text \<open>
  Against C8 as stated: the first of two definitions fails validation. No outcome is
  logged, and the second definition is never attempted.
\<close>

theorem C8_counterexample:
  "logged (register_runner_types env_plain False
             [invalid_runner ''b'', example_runner ''c''] []) = [] \<and>
   raised (register_runner_types env_plain False
             [invalid_runner ''b'', example_runner ''c''] []) =
     Some (ValidationError ''runner_module is empty'') \<and>
   db_after (register_runner_types env_plain False
               [invalid_runner ''b'', example_runner ''c''] []) = []"
  by (simp add: env_plain_def run_defs)

text \<open>
  C8, amended. The outcomes logged are those of an initial segment of the catalog, one
  for each definition and in catalog order: the \<open>i\<close>-th outcome is what the loop body
  yields for the \<open>i\<close>-th definition. The segment is the whole catalog exactly when no
  exception leaves the function; when one does, it is the exception the loop body raised
  for the first definition without an outcome, and no later definition is attempted.
\<close>

theorem C8_outcomes_follow_the_catalog_until_an_exception:
  "length (logged (register_runner_types env exp C db)) \<le> length C \<and>
   (raised (register_runner_types env exp C db) = None \<longleftrightarrow>
      length (logged (register_runner_types env exp C db)) = length C) \<and>
   (\<forall>i < length (logged (register_runner_types env exp C db)).
      \<exists>dbi d' db'. register_one env exp (C ! i) dbi =
         (d', db', Inr (logged (register_runner_types env exp C db) ! i))) \<and>
   (\<forall>e. raised (register_runner_types env exp C db) = Some e \<longrightarrow>
      (\<exists>dbi d' db'.
         register_one env exp (C ! length (logged (register_runner_types env exp C db))) dbi =
           (d', db', Inl e)))"
proof -
  have nth: "\<forall>i < length (logged (register_loop env exp C db)).
      \<exists>dbi d' db'. register_one env exp (C ! i) dbi =
         (d', db', Inr (logged (register_loop env exp C db) ! i))"
  proof (induction C arbitrary: db)
    case Nil
    show ?case by simp
  next
    case (Cons d C)
    obtain d' db' res where r: "register_one env exp d db = (d', db', res)"
      by (cases "register_one env exp d db")
    show ?case
    proof (cases res)
      case (Inl e)
      with r show ?thesis by simp
    next
      case (Inr out)
      show ?thesis
      proof (intro allI impI)
        fix i assume i: "i < length (logged (register_loop env exp (d # C) db))"
        show "\<exists>dbi d' db'. register_one env exp ((d # C) ! i) dbi =
                (d', db', Inr (logged (register_loop env exp (d # C) db) ! i))"
        proof (cases i)
          case 0
          with r Inr show ?thesis by (auto simp: Let_def)
        next
          case (Suc j)
          with i r Inr have "j < length (logged (register_loop env exp C db'))"
            by (simp add: Let_def)
          with Cons.IH [of db'] Suc r Inr show ?thesis by (simp add: Let_def)
        qed
      qed
    qed
  qed
  have esc: "\<forall>e. raised (register_loop env exp C db) = Some e \<longrightarrow>
      (\<exists>dbi d' db'.
         register_one env exp (C ! length (logged (register_loop env exp C db))) dbi =
           (d', db', Inl e))"
  proof (induction C arbitrary: db)
    case Nil
    show ?case by simp
  next
    case (Cons d C)
    obtain d' db' res where r: "register_one env exp d db = (d', db', res)"
      by (cases "register_one env exp d db")
    show ?case
    proof (cases res)
      case (Inl e)
      with r show ?thesis by auto
    next
      case (Inr out)
      with r Cons.IH [of db'] show ?thesis by (simp add: Let_def)
    qed
  qed
  show ?thesis
    using nth esc length_logged_le [of env exp C db] raised_iff_length [of env exp C db]
    by (simp add: register_runner_types_def)
qed

text \<open>The theorem at the catalog \<open>a, b, c\<close> with an invalid \<open>b\<close>: one outcome, for
  \<open>a\<close>, and the validation error of \<open>b\<close>.\<close>

theorem C8_witness:
  "length (logged (register_runner_types env_plain False catalog_a_invalid_c [])) \<le> 3 \<and>
   raised (register_runner_types env_plain False catalog_a_invalid_c []) \<noteq> None \<and>
   (\<exists>dbi d' db'. register_one env_plain False (example_runner ''a'') dbi =
      (d', db', Inr (Created \<lparr>record_id = Some 0, record_fields = example_runner ''a''\<rparr>))) \<and>
   (\<exists>dbi d' db'. register_one env_plain False (invalid_runner ''b'') dbi =
      (d', db', Inl (ValidationError ''runner_module is empty'')))"
proof -
  have run: "logged (register_runner_types env_plain False catalog_a_invalid_c []) =
               [Created \<lparr>record_id = Some 0, record_fields = example_runner ''a''\<rparr>]"
            "raised (register_runner_types env_plain False catalog_a_invalid_c []) =
               Some (ValidationError ''runner_module is empty'')"
    by (simp_all add: catalog_a_invalid_c_def env_plain_def run_defs)
  have i: "0 < length (logged (register_runner_types env_plain False catalog_a_invalid_c []))"
    by (simp add: run)
  note main = C8_outcomes_follow_the_catalog_until_an_exception
                [of env_plain False catalog_a_invalid_c "[]"]
  from main have "length (logged (register_runner_types env_plain False catalog_a_invalid_c [])) \<le> 3"
    by (simp add: catalog_a_invalid_c_def)
  moreover from main have "raised (register_runner_types env_plain False catalog_a_invalid_c []) \<noteq> None"
    using run(1) by (simp add: catalog_a_invalid_c_def)
  moreover from main i have "\<exists>dbi d' db'. register_one env_plain False (catalog_a_invalid_c ! 0) dbi =
      (d', db', Inr (logged (register_runner_types env_plain False catalog_a_invalid_c []) ! 0))"
    by blast
  moreover from main run(2) have "\<exists>dbi d' db'. register_one env_plain False
      (catalog_a_invalid_c ! length (logged (register_runner_types env_plain False catalog_a_invalid_c []))) dbi =
      (d', db', Inl (ValidationError ''runner_module is empty''))"
    by blast
  ultimately show ?thesis
    by (simp add: run(1)) (simp add: catalog_a_invalid_c_def)
qed

subsection \<open>C9: one record per name\<close>

text \<open>
  C9, on the store modelled from the spec, with any validator and any failures of the
  save. If the store holds at most one record per name before a call, it does so after
  the call, and every definition logged as created or updated has exactly one record of
  its name. A definition whose name is found is written over the record found, and one
  that is not found is appended: the store grows by exactly the number of \<open>Created\<close>
  outcomes. The names of \<^verbatim>\<open>RUNNER_TYPES\<close> are pairwise distinct.
\<close>

theorem C9_one_record_per_name:
  assumes "distinct (map name s)"
  shows "distinct (map name (db_after (register_runner_types (store_env v no_fault pf) exp C s))) \<and>
         (\<forall>out \<in> set (logged (register_runner_types (store_env v no_fault pf) exp C s)).
            \<forall>n. saved_name out = Some n \<longrightarrow>
              length (filter (\<lambda>x. name x = n)
                        (db_after (register_runner_types (store_env v no_fault pf) exp C s))) = 1) \<and>
         length (db_after (register_runner_types (store_env v no_fault pf) exp C s)) =
           length s +
           length (filter created (logged (register_runner_types (store_env v no_fault pf) exp C s))) \<and>
         distinct (map name (RUNNER_TYPES c))"
proof -
  let ?r = "register_loop (store_env v no_fault pf) exp C s"
  have d: "distinct (map name (db_after ?r))"
    using assms
    by (rule register_loop_invariant [where P = "\<lambda>s. distinct (map name s)"])
       (rule register_one_store_distinct)
  have one: "length (filter (\<lambda>x. name x = n) (db_after ?r)) = 1"
    if "out \<in> set (logged ?r)" "saved_name out = Some n" for out n
    using d saved_names_in_store [OF that] by (rule distinct_count_one)
  have c: "distinct (map name (RUNNER_TYPES c))"
    by (simp only: catalog_names) simp
  from d one c show ?thesis
    by (simp add: register_runner_types_def store_length_after)
qed

text \<open>The theorem at the catalog \<open>a, b, c\<close> on a store that holds \<open>a\<close>: \<open>a\<close> is
  updated, \<open>b\<close> and \<open>c\<close> are created, and the store holds three records of
  distinct names.\<close>

theorem C9_witness:
  "distinct (map name (db_after (register_runner_types env_plain False catalog_abc
                                   [example_runner ''a'']))) \<and>
   length (filter (\<lambda>x. name x = ''b'')
             (db_after (register_runner_types env_plain False catalog_abc
                          [example_runner ''a'']))) = 1 \<and>
   length (db_after (register_runner_types env_plain False catalog_abc [example_runner ''a''])) =
     3 \<and>
   distinct (map name (RUNNER_TYPES example_constants))"
proof -
  have s: "distinct (map name [example_runner ''a''])" by simp
  note main = C9_one_record_per_name
                [OF s, of validate_spec no_fault False catalog_abc example_constants,
                 folded env_plain_def]
  have l: "logged (register_runner_types env_plain False catalog_abc [example_runner ''a'']) =
     [Updated \<lparr>record_id = Some 0, record_fields = example_runner ''a''\<rparr>,
      Created \<lparr>record_id = Some 1, record_fields = example_runner ''b''\<rparr>,
      Created \<lparr>record_id = Some 2, record_fields = example_runner ''c''\<rparr>]"
    by (simp add: catalog_abc_def env_plain_def run_defs)
  from main have 1: "distinct (map name (db_after (register_runner_types env_plain False
                       catalog_abc [example_runner ''a''])))"
    by blast
  from main have
    "\<forall>out \<in> set (logged (register_runner_types env_plain False catalog_abc [example_runner ''a''])).
       \<forall>n. saved_name out = Some n \<longrightarrow>
         length (filter (\<lambda>x. name x = n)
           (db_after (register_runner_types env_plain False catalog_abc [example_runner ''a'']))) = 1"
    by blast
  then have 2: "length (filter (\<lambda>x. name x = ''b'')
             (db_after (register_runner_types env_plain False catalog_abc
                          [example_runner ''a'']))) = 1"
    by (simp add: l)
  from main have 3: "length (db_after (register_runner_types env_plain False catalog_abc
                       [example_runner ''a''])) = 3"
    by (simp add: l)
  from main have 4: "distinct (map name (RUNNER_TYPES example_constants))" by blast
  from 1 2 3 4 show ?thesis by blast
qed

subsection \<open>C10: deleting the marker is destructive\<close>

text \<open>
  Against C10 as stated: a later call need not persist a formerly experimental runner.
  On a store whose save of \<open>e\<close> fails, a call with \<^verbatim>\<open>experimental=True\<close> deletes the
  marker of \<open>e\<close> and leaves \<open>e\<close> unsaved; the next call, with
  \<^verbatim>\<open>experimental=False\<close>, does not skip \<open>e\<close>, but its outcome is \<open>Failed\<close> and the
  store still holds \<open>a\<close> alone.
\<close>

theorem C10_counterexample:
  "catalog_after (register_runner_types env_e_unsaved True catalog_a_e []) =
     [example_runner ''a'', example_runner ''e''] \<and>
   db_after (register_runner_types env_e_unsaved True catalog_a_e []) = [example_runner ''a''] \<and>
   logged (register_then env_e_unsaved True False catalog_a_e []) =
     [Updated \<lparr>record_id = Some 0, record_fields = example_runner ''a''\<rparr>, Failed ''e''] \<and>
   db_after (register_then env_e_unsaved True False catalog_a_e []) = [example_runner ''a'']"
  by (simp add: register_then_def catalog_a_e_def env_e_unsaved_def run_defs)

text \<open>
  C10, amended. The \<^verbatim>\<open>experimental\<close> key is deleted from the entry of the shared catalog
  itself, and only from entries that are processed. After a call with
  \<^verbatim>\<open>experimental=True\<close> every entry that has an outcome has lost the key, and all of
  them have when no exception left the call. An entry without the key is never skipped
  by a later call, whatever its flag: the loop body does for it what it does for the
  original entry under \<^verbatim>\<open>experimental=True\<close>. When its lookup finds the record or
  reports it not found and its validation passes, the record built from it is handed to
  \<^verbatim>\<open>add_or_update\<close>, and when that save succeeds the outcome is \<open>Updated\<close> or
  \<open>Created\<close> with the object saved and the database is the one the save left. On the
  store modelled from the spec, without failures and with a catalog whose definitions
  all pass validation, a call with \<^verbatim>\<open>experimental=True\<close> followed by a call with any
  flag ends both without an exception, the second call logs \<open>Updated\<close> for every
  definition, experimental ones included, and every definition has its record in the
  store. A call with \<^verbatim>\<open>experimental=False\<close> leaves an experimental entry as it was,
  marker included, with the outcome \<open>Skipped\<close>; so the next such call skips it again.
  In \<^verbatim>\<open>RUNNER_TYPES\<close> the entries concerned are the two Windows runners.
\<close>

theorem C10_deleting_the_marker_is_destructive:
  "(\<forall>i < length (logged (register_runner_types env True C db)).
      catalog_after (register_runner_types env True C db) ! i = del_experimental (C ! i)) \<and>
   (raised (register_runner_types env True C db) = None \<longrightarrow>
      catalog_after (register_runner_types env True C db) = map del_experimental C) \<and>
   register_one env' exp' (del_experimental d) db' = register_one env' True d db' \<and>
   (\<forall>d'' db'' n. register_one env' exp' (del_experimental d) db' \<noteq> (d'', db'', Inr (Skipped n))) \<and>
   ((\<forall>e. get_runnertype_by_name env' db' (name d) = Inl e \<longrightarrow>
          e = StackStormDBObjectNotFoundError) \<and>
    validate env' (RunnerTypeAPI (del_experimental d)) = None \<longrightarrow>
      (\<exists>m u. prepare env' exp' (del_experimental d) db' = (del_experimental d, Upsert m u) \<and>
         record_fields m = del_experimental d \<and>
         (\<forall>saved db''. add_or_update env' db' m = (Inr saved, db'') \<longrightarrow>
            register_one env' exp' (del_experimental d) db' =
              (del_experimental d, db'',
               Inr (if u then Updated saved else Created saved))))) \<and>
   ((\<forall>d \<in> set C. v (del_experimental d) = None) \<longrightarrow>
      raised (register_runner_types (store_env v no_fault no_fault) True C s) = None \<and>
      catalog_after (register_runner_types (store_env v no_fault no_fault) True C s) =
        map del_experimental C \<and>
      raised (register_then (store_env v no_fault no_fault) True exp' C s) = None \<and>
      logged (register_then (store_env v no_fault no_fault) True exp' C s) =
        map (\<lambda>d. Updated
               \<lparr>record_id =
                  first_named (name d)
                    (db_after (register_runner_types (store_env v no_fault no_fault) True C s)),
                record_fields = del_experimental d\<rparr>) C \<and>
      (\<forall>d \<in> set C.
         \<exists>i. first_named (name d)
                (db_after (register_then (store_env v no_fault no_fault) True exp' C s)) =
              Some i) \<and>
      db_after (register_then (store_env v no_fault no_fault) True exp' C s) =
        db_after (register_runner_types (store_env v no_fault no_fault) True C s)) \<and>
   (\<forall>i < length (logged (register_runner_types env False C db)).
      runner_experimental (C ! i) \<longrightarrow>
        catalog_after (register_runner_types env False C db) ! i = C ! i \<and>
        logged (register_runner_types env False C db) ! i = Skipped (name (C ! i))) \<and>
   filter runner_experimental (RUNNER_TYPES c) = [run_windows_cmd c, run_windows_script c]"
proof -
  have a: "\<forall>i < length (logged (register_loop env True C db)).
      catalog_after (register_loop env True C db) ! i = del_experimental (C ! i)"
    by (simp add: catalog_after_nth left_in_catalog_def)
  have b: "catalog_after (register_loop env True C db) = map del_experimental C"
    if "raised (register_loop env True C db) = None"
    using catalog_after_complete [OF that] by (simp add: left_in_catalog_def)
  have p: "\<exists>m u. prepare env' exp' (del_experimental d) db' = (del_experimental d, Upsert m u) \<and>
         record_fields m = del_experimental d \<and>
         (\<forall>saved db''. add_or_update env' db' m = (Inr saved, db'') \<longrightarrow>
            register_one env' exp' (del_experimental d) db' =
              (del_experimental d, db'',
               Inr (if u then Updated saved else Created saved)))"
    if l: "\<forall>e. get_runnertype_by_name env' db' (name d) = Inl e \<longrightarrow>
                e = StackStormDBObjectNotFoundError"
      and v: "validate env' (RunnerTypeAPI (del_experimental d)) = None"
  proof -
    from prepare_in_scope [OF l v, of exp'] obtain m u where
      m: "prepare env' exp' (del_experimental d) db' = (del_experimental d, Upsert m u)"
         "record_fields m = del_experimental d"
      by blast
    then have "register_one env' exp' (del_experimental d) db' =
              (del_experimental d, db'', Inr (if u then Updated saved else Created saved))"
      if "add_or_update env' db' m = (Inr saved, db'')" for saved db''
      using that by (simp add: register_one_def)
    with m show ?thesis by blast
  qed
  have d: "catalog_after (register_loop env False C db) ! i = C ! i \<and>
           logged (register_loop env False C db) ! i = Skipped (name (C ! i))"
    if i: "i < length (logged (register_loop env False C db))"
      and e: "runner_experimental (C ! i)" for i
  proof -
    from logged_nth [OF i] obtain dbi d' db' where
      "register_one env False (C ! i) dbi =
         (d', db', Inr (logged (register_loop env False C db) ! i))"
      by blast
    with e have "logged (register_loop env False C db) ! i = Skipped (name (C ! i))"
      by (auto simp: register_one_skipped)
    moreover from e have "catalog_after (register_loop env False C db) ! i = C ! i"
      by (simp add: catalog_after_nth [OF i] left_in_catalog_def)
    ultimately show ?thesis by simp
  qed
  have f: "filter runner_experimental (RUNNER_TYPES c) =
             [run_windows_cmd c, run_windows_script c]"
    by (simp add: RUNNER_TYPES_def runner_experimental_def)
  have ab: "(\<forall>i < length (logged (register_runner_types env True C db)).
      catalog_after (register_runner_types env True C db) ! i = del_experimental (C ! i)) \<and>
   (raised (register_runner_types env True C db) = None \<longrightarrow>
      catalog_after (register_runner_types env True C db) = map del_experimental C)"
    using a b by (simp add: register_runner_types_def)
  have dd: "\<forall>i < length (logged (register_runner_types env False C db)).
      runner_experimental (C ! i) \<longrightarrow>
        catalog_after (register_runner_types env False C db) ! i = C ! i \<and>
        logged (register_runner_types env False C db) ! i = Skipped (name (C ! i))"
    using d by (simp add: register_runner_types_def)
  from ab dd f p register_one_del [of env' exp' d db']
       register_one_del_not_Skipped [of env' exp' d db']
       two_calls_on_store [of C v s exp']
  show ?thesis by blast
qed

text \<open>The theorem at a catalog of a plain and an experimental runner, on an empty
  store: with the flag set the experimental runner is created and loses its marker, a
  later call without the flag updates it, and a call without the flag on the original
  catalog skips it and leaves its marker.\<close>

theorem C10_witness:
  "catalog_after (register_runner_types env_plain True catalog_a_e []) ! 1 = example_runner ''e'' \<and>
   catalog_after (register_runner_types env_plain True catalog_a_e []) =
     [example_runner ''a'', example_runner ''e''] \<and>
   register_one env_plain False (example_runner ''e'') [example_runner ''a''] =
     (example_runner ''e'', [example_runner ''a'', example_runner ''e''],
      Inr (Created \<lparr>record_id = Some 1, record_fields = example_runner ''e''\<rparr>)) \<and>
   logged (register_then env_plain True False catalog_a_e []) =
     [Updated \<lparr>record_id = Some 0, record_fields = example_runner ''a''\<rparr>,
      Updated \<lparr>record_id = Some 1, record_fields = example_runner ''e''\<rparr>] \<and>
   db_after (register_then env_plain True False catalog_a_e []) =
     [example_runner ''a'', example_runner ''e''] \<and>
   catalog_after (register_runner_types env_plain False catalog_a_e []) ! 1 =
     experimental_runner ''e'' \<and>
   logged (register_runner_types env_plain False catalog_a_e []) ! 1 = Skipped ''e'' \<and>
   filter runner_experimental (RUNNER_TYPES example_constants) =
     [run_windows_cmd example_constants, run_windows_script example_constants]"
proof -
  note main = C10_deleting_the_marker_is_destructive
    [where env = env_plain and C = catalog_a_e and db = "[]" and env' = env_plain
       and exp' = False and d = "experimental_runner ''e''" and db' = "[example_runner ''a'']"
       and v = validate_spec and s = "[]" and c = example_constants,
     folded env_plain_def]
  have t: "logged (register_runner_types env_plain True catalog_a_e []) =
     [Created \<lparr>record_id = Some 0, record_fields = example_runner ''a''\<rparr>,
      Created \<lparr>record_id = Some 1, record_fields = example_runner ''e''\<rparr>]"
    "raised (register_runner_types env_plain True catalog_a_e []) = None"
    "db_after (register_runner_types env_plain True catalog_a_e []) =
       [example_runner ''a'', example_runner ''e'']"
    by (simp_all add: catalog_a_e_def env_plain_def run_defs)
  have f: "length (logged (register_runner_types env_plain False catalog_a_e [])) = 2"
    by (simp add: catalog_a_e_def env_plain_def run_defs)
  have e: "runner_experimental (catalog_a_e ! 1)"
    "del_experimental (catalog_a_e ! 1) = example_runner ''e''"
    "catalog_a_e ! 1 = experimental_runner ''e''"
    "map del_experimental catalog_a_e = [example_runner ''a'', example_runner ''e'']"
    by (simp_all add: catalog_a_e_def)
  have valid: "\<forall>d \<in> set catalog_a_e. validate_spec (del_experimental d) = None"
    by (simp add: catalog_a_e_def)
  have l: "\<forall>e. get_runnertype_by_name env_plain [example_runner ''a'']
                  (name (experimental_runner ''e'')) = Inl e \<longrightarrow>
               e = StackStormDBObjectNotFoundError"
    by (simp add: env_plain_def store_env_def no_fault_def find_by_name_def)
  have v: "validate env_plain (RunnerTypeAPI (del_experimental (experimental_runner ''e''))) = None"
    by (simp add: env_plain_def store_env_def RunnerTypeAPI_def)
  have s: "add_or_update env_plain [example_runner ''a'']
             \<lparr>record_id = None, record_fields = example_runner ''e''\<rparr> =
             (Inr \<lparr>record_id = Some 1, record_fields = example_runner ''e''\<rparr>,
              [example_runner ''a'', example_runner ''e''])"
    by (simp add: env_plain_def store_env_def no_fault_def upsert_def)
  have pe: "prepare env_plain False (example_runner ''e'') [example_runner ''a''] =
             (example_runner ''e'',
              Upsert \<lparr>record_id = None, record_fields = example_runner ''e''\<rparr> False)"
    by (simp add: env_plain_def run_defs)
  from main have 1: "catalog_after (register_runner_types env_plain True catalog_a_e []) ! 1 =
      example_runner ''e''"
    using t(1) e(2) by simp
  from main t(2) have "catalog_after (register_runner_types env_plain True catalog_a_e []) =
      map del_experimental catalog_a_e"
    by blast
  then have 2: "catalog_after (register_runner_types env_plain True catalog_a_e []) =
      [example_runner ''a'', example_runner ''e'']"
    by (simp only: e(4))
  from main l v obtain m u where
    m: "prepare env_plain False (del_experimental (experimental_runner ''e''))
          [example_runner ''a''] =
          (del_experimental (experimental_runner ''e''), Upsert m u)"
    and r: "\<forall>saved db''. add_or_update env_plain [example_runner ''a''] m = (Inr saved, db'') \<longrightarrow>
              register_one env_plain False (del_experimental (experimental_runner ''e''))
                [example_runner ''a''] =
                (del_experimental (experimental_runner ''e''), db'',
                 Inr (if u then Updated saved else Created saved))"
    by blast
  from m pe have "m = \<lparr>record_id = None, record_fields = example_runner ''e''\<rparr>" "\<not> u"
    by simp_all
  with r s have 3: "register_one env_plain False (example_runner ''e'') [example_runner ''a''] =
     (example_runner ''e'', [example_runner ''a'', example_runner ''e''],
      Inr (Created \<lparr>record_id = Some 1, record_fields = example_runner ''e''\<rparr>))"
    by simp
  from main valid have
    "logged (register_then env_plain True False catalog_a_e []) =
        map (\<lambda>d. Updated
               \<lparr>record_id =
                  first_named (name d)
                    (db_after (register_runner_types env_plain True catalog_a_e [])),
                record_fields = del_experimental d\<rparr>) catalog_a_e"
    and "db_after (register_then env_plain True False catalog_a_e []) =
         db_after (register_runner_types env_plain True catalog_a_e [])"
    by blast+
  then have 4: "logged (register_then env_plain True False catalog_a_e []) =
     [Updated \<lparr>record_id = Some 0, record_fields = example_runner ''a''\<rparr>,
      Updated \<lparr>record_id = Some 1, record_fields = example_runner ''e''\<rparr>]"
    and 5: "db_after (register_then env_plain True False catalog_a_e []) =
     [example_runner ''a'', example_runner ''e'']"
    by (simp_all add: catalog_a_e_def t(3) [unfolded catalog_a_e_def])
  from main f e(1) have
    "catalog_after (register_runner_types env_plain False catalog_a_e []) ! 1 = catalog_a_e ! 1 \<and>
     logged (register_runner_types env_plain False catalog_a_e []) ! 1 =
       Skipped (name (catalog_a_e ! 1))"
    by simp
  then have 6:
    "catalog_after (register_runner_types env_plain False catalog_a_e []) ! 1 =
       experimental_runner ''e'' \<and>
     logged (register_runner_types env_plain False catalog_a_e []) ! 1 = Skipped ''e''"
    by (simp only: e(3) experimental_runner_simps)
  from main have 7: "filter runner_experimental (RUNNER_TYPES example_constants) =
     [run_windows_cmd example_constants, run_windows_script example_constants]"
    by blast
  from 1 2 3 4 5 6 7 show ?thesis by blast
qed

end
